theory Spec2Isabelle
  imports Complex_Main "HOL-Library.Multiset"
begin

section \<open>Spatial Hawk-Dove game on a toroidal lattice\<close>

text \<open>
  A shallow embedding of the notebook's simulation engine: the two neighbourhood
  functions, \<open>generate_table\<close>, \<open>iterate\<close>, the sweep loop of the notebook cells and
  the two fraction aggregations.

  Conventions of the embedding.
  \<^item> A numpy exception is a value \<open>Inl e\<close> of the result type \<open>error + 'a\<close>.
  \<^item> A two-dimensional numpy array is a record of its shape and its row-major data.
  \<^item> A float64 is \<open>Fin r\<close> for a real \<open>r\<close>, or one of the three special values;
    arithmetic on finite values is exact (rounding and overflow to infinity are not
    modelled), the special values follow IEEE 754.
  \<^item> numpy's global random generator is a state of an arbitrary type \<open>'g\<close>;
    \<open>np.random.seed\<close> and \<open>np.random.permutation\<close> are parameters \<open>seed\<close> and
    \<open>perm\<close> of the functions that call them.
\<close>

subsection \<open>Errors\<close>

datatype error = IndexError | ValueError

definition ebind :: "error + 'a \<Rightarrow> ('a \<Rightarrow> error + 'b) \<Rightarrow> error + 'b" where
  "ebind m f = (case m of Inl e \<Rightarrow> Inl e | Inr v \<Rightarrow> f v)"

text \<open>A \<open>for\<close> loop over a list whose body may raise: the first exception ends it.\<close>

primrec efold :: "('a \<Rightarrow> 's \<Rightarrow> error + 's) \<Rightarrow> 'a list \<Rightarrow> 's \<Rightarrow> error + 's" where
  "efold f [] s = Inr s"
| "efold f (x # xs) s = ebind (f x s) (efold f xs)"

text \<open>Evaluating a list of fallible reads from left to right (fancy indexing).\<close>

primrec emap :: "('a \<Rightarrow> error + 'b) \<Rightarrow> 'a list \<Rightarrow> error + 'b list" where
  "emap f [] = Inr []"
| "emap f (x # xs) = ebind (f x) (\<lambda>v. ebind (emap f xs) (\<lambda>vs. Inr (v # vs)))"

subsection \<open>float64 values\<close>

datatype f64 = Fin real | PInf | NInf | NaN

fun f64_add :: "f64 \<Rightarrow> f64 \<Rightarrow> f64" where
  "f64_add NaN _ = NaN"
| "f64_add _ NaN = NaN"
| "f64_add PInf NInf = NaN"
| "f64_add NInf PInf = NaN"
| "f64_add PInf _ = PInf"
| "f64_add _ PInf = PInf"
| "f64_add NInf _ = NInf"
| "f64_add _ NInf = NInf"
| "f64_add (Fin a) (Fin b) = Fin (a + b)"

text \<open>The order of non-NaN values, as \<open>a <= b\<close> on floats; False when a NaN is involved.\<close>

fun f64_le :: "f64 \<Rightarrow> f64 \<Rightarrow> bool" where
  "f64_le NaN _ = False"
| "f64_le _ NaN = False"
| "f64_le NInf _ = True"
| "f64_le _ PInf = True"
| "f64_le PInf _ = False"
| "f64_le _ NInf = False"
| "f64_le (Fin a) (Fin b) = (a \<le> b)"

text \<open>\<open>np.maximum\<close>: a NaN operand gives NaN.\<close>

definition f64_max :: "f64 \<Rightarrow> f64 \<Rightarrow> f64" where
  "f64_max a b = (if a = NaN \<or> b = NaN then NaN else if f64_le a b then b else a)"

text \<open>\<open>np.max\<close> of a one-dimensional array; an empty array raises ValueError.\<close>

definition np_max :: "f64 list \<Rightarrow> error + f64" where
  "np_max xs = (case xs of [] \<Rightarrow> Inl ValueError | x # rest \<Rightarrow> Inr (foldl f64_max x rest))"

text \<open>
  \<open>np.isclose(a, b)\<close> with the default \<open>rtol=1e-05\<close>, \<open>atol=1e-08\<close>,
  \<open>equal_nan=False\<close>: for two finite values \<open>|a - b| <= atol + rtol * |b|\<close>, otherwise
  the floats' \<open>==\<close>.
\<close>

definition atol :: real where
  "atol = 1 / 100000000"

definition rtol :: real where
  "rtol = 1 / 100000"

fun isclose :: "f64 \<Rightarrow> f64 \<Rightarrow> bool" where
  "isclose (Fin a) (Fin b) = (\<bar>a - b\<bar> \<le> atol + rtol * \<bar>b\<bar>)"
| "isclose PInf PInf = True"
| "isclose NInf NInf = True"
| "isclose _ _ = False"

subsection \<open>Arrays\<close>

record 'a ndarray =
  shape0 :: nat
  shape1 :: nat
  flat :: "'a list"

definition np_zeros :: "nat \<Rightarrow> nat \<Rightarrow> 'a \<Rightarrow> 'a ndarray" where
  "np_zeros n m z = \<lparr>shape0 = n, shape1 = m, flat = replicate (n * m) z\<rparr>"

text \<open>An index along an axis of length \<open>n\<close>: a negative index counts from the end.\<close>

definition py_index :: "nat \<Rightarrow> int \<Rightarrow> error + nat" where
  "py_index n i =
     (if 0 \<le> i \<and> i < int n then Inr (nat i)
      else if - int n \<le> i \<and> i < 0 then Inr (nat (i + int n))
      else Inl IndexError)"

definition offset2 :: "'a ndarray \<Rightarrow> int \<Rightarrow> int \<Rightarrow> error + nat" where
  "offset2 a i j =
     ebind (py_index (shape0 a) i) (\<lambda>r.
     ebind (py_index (shape1 a) j) (\<lambda>c.
       if r * shape1 a + c < length (flat a) then Inr (r * shape1 a + c)
       else Inl IndexError))"

definition get2 :: "'a ndarray \<Rightarrow> int \<Rightarrow> int \<Rightarrow> error + 'a" where
  "get2 a i j = ebind (offset2 a i j) (\<lambda>k. Inr (flat a ! k))"

definition set2 :: "'a ndarray \<Rightarrow> int \<Rightarrow> int \<Rightarrow> 'a \<Rightarrow> error + 'a ndarray" where
  "set2 a i j v = ebind (offset2 a i j) (\<lambda>k. Inr (a\<lparr>flat := (flat a)[k := v]\<rparr>))"

text \<open>Indexing a one-dimensional array (or a Python list) with a non-negative index.\<close>

definition nth_err :: "'a list \<Rightarrow> nat \<Rightarrow> error + 'a" where
  "nth_err xs k = (if k < length xs then Inr (xs ! k) else Inl IndexError)"

subsection \<open>Neighbourhoods\<close>

text \<open>
  The in-place \<open>%=\<close> of an integer array: the result has the sign of the divisor, and
  numpy gives 0 (with a warning) for a zero divisor.
\<close>

definition np_mod :: "int \<Rightarrow> int \<Rightarrow> int" where
  "np_mod a n = (if n = 0 then 0 else a mod n)"

type_synonym coord = "int \<times> int"

type_synonym neighbourhood = "int \<Rightarrow> int \<Rightarrow> int \<Rightarrow> int \<Rightarrow> coord \<times> coord list"

definition wrap :: "int \<Rightarrow> int \<Rightarrow> coord list \<Rightarrow> coord list" where
  "wrap size_x size_y idxs = map (\<lambda>(a, b). (np_mod a size_x, np_mod b size_y)) idxs"

definition moore_neighbourhood :: neighbourhood where
  "moore_neighbourhood x y size_x size_y =
     ((x, y),
      wrap size_x size_y
        [(x - 1, y + 1), (x, y + 1), (x + 1, y + 1),
         (x - 1, y), (x + 1, y),
         (x - 1, y - 1), (x, y - 1), (x + 1, y - 1)])"

definition von_neumann_neighbourhood :: neighbourhood where
  "von_neumann_neighbourhood x y size_x size_y =
     ((x, y),
      wrap size_x size_y
        [(x, y + 1),
         (x - 1, y), (x + 1, y),
         (x, y - 1)])"

text \<open>A coordinate list lies on the grid.\<close>

definition in_grid :: "int \<Rightarrow> int \<Rightarrow> coord list \<Rightarrow> bool" where
  "in_grid size_x size_y cs = list_all (\<lambda>(a, b). 0 \<le> a \<and> a < size_x \<and> 0 \<le> b \<and> b < size_y) cs"

subsection \<open>Grid initialisation\<close>

text \<open>
  \<open>xs[i::s]\<close> for a positive step \<open>s\<close>, and the fancy-index assignment
  \<open>t[idxs] = v\<close>, which raises IndexError on an index outside the array.
\<close>

definition slice_step :: "'a list \<Rightarrow> nat \<Rightarrow> nat \<Rightarrow> 'a list" where
  "slice_step xs i s = map (nth xs) (filter (\<lambda>k. (k - i) mod s = 0) [i..<length xs])"

definition assign_at :: "'a list \<Rightarrow> nat list \<Rightarrow> 'a \<Rightarrow> error + 'a list" where
  "assign_at t idxs v =
     efold (\<lambda>k t. if k < length t then Inr (t[k := v]) else Inl IndexError) idxs t"

text \<open>
  \<open>t.reshape(size_x, size_y)\<close> of a one-dimensional array: a negative entry is the one
  dimension numpy infers; the sizes must match.
\<close>

definition reshape :: "'a list \<Rightarrow> int \<Rightarrow> int \<Rightarrow> error + 'a ndarray" where
  "reshape t size_x size_y =
     (if size_x < 0 \<and> size_y < 0 then Inl ValueError
      else if size_x < 0 then
        (if size_y = 0 \<or> length t mod nat size_y \<noteq> 0 then Inl ValueError
         else Inr \<lparr>shape0 = length t div nat size_y, shape1 = nat size_y, flat = t\<rparr>)
      else if size_y < 0 then
        (if size_x = 0 \<or> length t mod nat size_x \<noteq> 0 then Inl ValueError
         else Inr \<lparr>shape0 = nat size_x, shape1 = length t div nat size_x, flat = t\<rparr>)
      else if nat size_x * nat size_y \<noteq> length t then Inl ValueError
      else Inr \<lparr>shape0 = nat size_x, shape1 = nat size_y, flat = t\<rparr>)"

text \<open>
  \<open>generate_table(size_x, size_y, num_strats)\<close>. The argument \<open>g\<close> is the state of
  the global generator at the call; \<open>np.random.seed(0)\<close> replaces it.
\<close>

definition generate_table ::
  "(int \<Rightarrow> 'g) \<Rightarrow> (nat \<Rightarrow> 'g \<Rightarrow> nat list \<times> 'g) \<Rightarrow> int \<Rightarrow> int \<Rightarrow> int \<Rightarrow> 'g
     \<Rightarrow> error + (int ndarray \<times> 'g)" where
  "generate_table seed perm size_x size_y num_strats g =
     (if size_x * size_y < 0 then Inl ValueError
      else
        let table = replicate (nat (size_x * size_y)) (0::int);
            g0 = seed 0;
            (rnd_idxs, g1) = perm (nat (size_x * size_y)) g0
        in ebind (efold (\<lambda>i t. assign_at t (slice_step rnd_idxs i (nat num_strats)) (int i))
                    [0..<nat num_strats] table) (\<lambda>t.
           ebind (reshape t size_x size_y) (\<lambda>r. Inr (r, g1))))"

text \<open>
  What numpy documents of \<open>np.random.permutation(n)\<close>: the result is a permutation of
  \<open>range(n)\<close>.
\<close>

definition valid_permutation :: "(nat \<Rightarrow> 'g \<Rightarrow> nat list \<times> 'g) \<Rightarrow> bool" where
  "valid_permutation perm = (\<forall>n g. mset (fst (perm n g)) = mset [0..<n])"

text \<open>The number of cells holding a strategy: \<open>(table == s).sum()\<close>.\<close>

definition count_strategy :: "int ndarray \<Rightarrow> int \<Rightarrow> nat" where
  "count_strategy t s = length (filter (\<lambda>v. v = s) (flat t))"

text \<open>
  An instance of the generator, to run the functions on concrete inputs: the state is a
  counter, and a permutation is a rotation of \<open>[0..<n]\<close> by it.
\<close>

definition example_seed :: "int \<Rightarrow> nat" where
  "example_seed s = nat s + 1"

definition example_permutation :: "nat \<Rightarrow> nat \<Rightarrow> nat list \<times> nat" where
  "example_permutation n g = (rotate g [0..<n], Suc g)"

subsection \<open>One generation\<close>

text \<open>
  The objects one call of \<open>iterate\<close> works on: the argument \<open>table\<close>, the two
  arrays \<open>table_s\<close> and \<open>table_new\<close> that the call allocates with \<open>np.zeros\<close>,
  and the state of the global random generator.
\<close>

record 'g iter_state =
  table :: "int ndarray"
  table_s :: "f64 ndarray"
  table_new :: "int ndarray"
  rng :: 'g

text \<open>
  The body of the first pair of loops at cell \<open>(i, j)\<close>: the strategies of the cell
  and of its neighbours are read from \<open>table\<close>, and each payoff is added in place to
  \<open>table_s[i, j]\<close>.
\<close>

definition fitness_cell ::
  "f64 ndarray \<Rightarrow> neighbourhood \<Rightarrow> nat \<Rightarrow> nat \<Rightarrow> 'g iter_state \<Rightarrow> error + 'g iter_state" where
  "fitness_cell payoff_mat neighbourhood_func i j st =
     (let (current, neighs) =
            neighbourhood_func (int i) (int j)
              (int (shape0 (table st))) (int (shape1 (table st)))
      in ebind (get2 (table st) (fst current) (snd current)) (\<lambda>current_strat.
         ebind (emap (\<lambda>(a, b). get2 (table st) a b) neighs) (\<lambda>neighs_strat.
         efold (\<lambda>nk st.
                  ebind (get2 payoff_mat current_strat nk) (\<lambda>p.
                  ebind (get2 (table_s st) (int i) (int j)) (\<lambda>old.
                  ebind (set2 (table_s st) (int i) (int j) (f64_add old p)) (\<lambda>ts.
                  Inr (st\<lparr>table_s := ts\<rparr>)))))
           neighs_strat st)))"

text \<open>\<open>np.argwhere(np.isclose(neighs_s, max_val)).flatten()\<close>\<close>

definition max_idx :: "f64 list \<Rightarrow> f64 \<Rightarrow> nat list" where
  "max_idx neighs_s max_val =
     filter (\<lambda>k. isclose (neighs_s ! k) max_val) [0..<length neighs_s]"

text \<open>
  The maximum, the positions close to it, and the random choice among them:
  \<open>np.random.permutation(n)[0]\<close> is the first entry of a permutation, IndexError when
  \<open>n = 0\<close>.
\<close>

definition choose_max ::
  "(nat \<Rightarrow> 'g \<Rightarrow> nat list \<times> 'g) \<Rightarrow> f64 list \<Rightarrow> 'g \<Rightarrow> error + (nat \<times> 'g)" where
  "choose_max perm neighs_s g =
     ebind (np_max neighs_s) (\<lambda>max_val.
       let idx = max_idx neighs_s max_val;
           (p, g') = perm (length idx) g
       in ebind (nth_err p 0) (\<lambda>rnd_idx.
          ebind (nth_err idx rnd_idx) (\<lambda>max_idx_chosen.
          Inr (max_idx_chosen, g'))))"

text \<open>
  The body of the second pair of loops at cell \<open>(i, j)\<close>, up to the value written:
  it reads the grid \<open>tab\<close> and the fitness array \<open>fit\<close>.
\<close>

definition next_cell ::
  "(nat \<Rightarrow> 'g \<Rightarrow> nat list \<times> 'g) \<Rightarrow> int ndarray \<Rightarrow> f64 ndarray \<Rightarrow> neighbourhood
     \<Rightarrow> nat \<Rightarrow> nat \<Rightarrow> 'g \<Rightarrow> error + (int \<times> 'g)" where
  "next_cell perm tab fit neighbourhood_func i j g =
     (let (current, neighs) =
            neighbourhood_func (int i) (int j) (int (shape0 tab)) (int (shape1 tab));
          all_neighs = current # neighs
      in ebind (emap (\<lambda>(a, b). get2 fit a b) all_neighs) (\<lambda>neighs_s.
         ebind (choose_max perm neighs_s g) (\<lambda>(max_idx_chosen, g').
         ebind (nth_err all_neighs max_idx_chosen) (\<lambda>local_max_s_coords.
         ebind (get2 tab (fst local_max_s_coords) (snd local_max_s_coords)) (\<lambda>v.
         Inr (v, g'))))))"

definition update_cell ::
  "(nat \<Rightarrow> 'g \<Rightarrow> nat list \<times> 'g) \<Rightarrow> neighbourhood \<Rightarrow> nat \<Rightarrow> nat \<Rightarrow> 'g iter_state
     \<Rightarrow> error + 'g iter_state" where
  "update_cell perm neighbourhood_func i j st =
     ebind (next_cell perm (table st) (table_s st) neighbourhood_func i j (rng st)) (\<lambda>(v, g').
     ebind (set2 (table_new st) (int i) (int j) v) (\<lambda>tn.
     Inr (st\<lparr>table_new := tn, rng := g'\<rparr>)))"

text \<open>\<open>iterate(table, payoff_mat, neighbourhood_func)\<close>, with the final state of all
  its objects, and then as the caller sees it.\<close>

definition iterate_state ::
  "(nat \<Rightarrow> 'g \<Rightarrow> nat list \<times> 'g) \<Rightarrow> int ndarray \<Rightarrow> f64 ndarray \<Rightarrow> neighbourhood \<Rightarrow> 'g
     \<Rightarrow> error + 'g iter_state" where
  "iterate_state perm tab payoff_mat neighbourhood_func g =
     (let st0 = \<lparr>table = tab,
                 table_s = np_zeros (shape0 tab) (shape1 tab) (Fin 0),
                 table_new = np_zeros (shape0 tab) (shape1 tab) 0,
                 rng = g\<rparr>
      in ebind (efold (\<lambda>i. efold (\<lambda>j. fitness_cell payoff_mat neighbourhood_func i j)
                                [0..<shape1 tab]) [0..<shape0 tab] st0) (\<lambda>st1.
         efold (\<lambda>i. efold (\<lambda>j. update_cell perm neighbourhood_func i j)
                        [0..<shape1 tab]) [0..<shape0 tab] st1))"

definition iterate ::
  "(nat \<Rightarrow> 'g \<Rightarrow> nat list \<times> 'g) \<Rightarrow> int ndarray \<Rightarrow> f64 ndarray \<Rightarrow> neighbourhood \<Rightarrow> 'g
     \<Rightarrow> error + (int ndarray \<times> 'g)" where
  "iterate perm tab payoff_mat neighbourhood_func g =
     ebind (iterate_state perm tab payoff_mat neighbourhood_func g) (\<lambda>st.
     Inr (table_new st, rng st))"


subsection \<open>The generation step as the specification words it\<close>

text \<open>
  The specification's FitnessField and UpdateRule: the fitness of a cell and the whole
  fitness field as functions of a frozen grid, and the values of the next grid as a
  function of the frozen grid and its fitness field (the generator is threaded through
  the cells in row-major order).
\<close>

definition cell_payoffs ::
  "int ndarray \<Rightarrow> f64 ndarray \<Rightarrow> neighbourhood \<Rightarrow> nat \<Rightarrow> nat \<Rightarrow> error + f64 list" where
  "cell_payoffs tab payoff_mat neighbourhood_func i j =
     (let (current, neighs) =
            neighbourhood_func (int i) (int j) (int (shape0 tab)) (int (shape1 tab))
      in ebind (get2 tab (fst current) (snd current)) (\<lambda>current_strat.
         ebind (emap (\<lambda>(a, b). get2 tab a b) neighs) (\<lambda>neighs_strat.
         emap (\<lambda>nk. get2 payoff_mat current_strat nk) neighs_strat)))"

definition cell_fitness ::
  "int ndarray \<Rightarrow> f64 ndarray \<Rightarrow> neighbourhood \<Rightarrow> nat \<Rightarrow> nat \<Rightarrow> error + f64" where
  "cell_fitness tab payoff_mat neighbourhood_func i j =
     ebind (cell_payoffs tab payoff_mat neighbourhood_func i j) (\<lambda>ps.
     Inr (foldl f64_add (Fin 0) ps))"

definition fitness_field ::
  "int ndarray \<Rightarrow> f64 ndarray \<Rightarrow> neighbourhood \<Rightarrow> error + f64 ndarray" where
  "fitness_field tab payoff_mat neighbourhood_func =
     ebind (emap (\<lambda>k. cell_fitness tab payoff_mat neighbourhood_func
                        (k div shape1 tab) (k mod shape1 tab))
              [0..<shape0 tab * shape1 tab]) (\<lambda>fs.
     Inr \<lparr>shape0 = shape0 tab, shape1 = shape1 tab, flat = fs\<rparr>)"

primrec next_values ::
  "(nat \<Rightarrow> 'g \<Rightarrow> nat list \<times> 'g) \<Rightarrow> int ndarray \<Rightarrow> f64 ndarray \<Rightarrow> neighbourhood
     \<Rightarrow> nat list \<Rightarrow> 'g \<Rightarrow> error + (int list \<times> 'g)" where
  "next_values perm tab fit neighbourhood_func [] g = Inr ([], g)"
| "next_values perm tab fit neighbourhood_func (k # ks) g =
     ebind (next_cell perm tab fit neighbourhood_func (k div shape1 tab) (k mod shape1 tab) g)
       (\<lambda>(v, g').
     ebind (next_values perm tab fit neighbourhood_func ks g') (\<lambda>(vs, g'').
     Inr (v # vs, g'')))"

subsection \<open>Payoff matrices, the sweep and the aggregation\<close>

text \<open>
  The payoff matrices of the notebook cells: \<open>np.array([[1-beta, 2], [0, 1]])\<close> and the
  three-strategy matrix with \<open>eps\<close>.
\<close>

definition payoff2 :: "real \<Rightarrow> f64 ndarray" where
  "payoff2 beta =
     \<lparr>shape0 = 2, shape1 = 2, flat = [Fin (1 - beta), Fin 2, Fin 0, Fin 1]\<rparr>"

definition payoff3 :: "real \<Rightarrow> real \<Rightarrow> f64 ndarray" where
  "payoff3 eps beta =
     \<lparr>shape0 = 3, shape1 = 3,
      flat = [Fin (1 - beta), Fin 2, Fin (1 - beta + eps),
              Fin 0, Fin 1, Fin (1 - eps),
              Fin (1 - beta - eps), Fin (1 + eps), Fin 1]\<rparr>"

text \<open>
  The shuffle of the shuffling cells after generation \<open>n\<close>: \<open>np.random.seed(n)\<close>, a
  permutation of the flattened grid's indices, and the grid read through it.
\<close>

definition shuffle_table ::
  "(int \<Rightarrow> 'g) \<Rightarrow> (nat \<Rightarrow> 'g \<Rightarrow> nat list \<times> 'g) \<Rightarrow> nat \<Rightarrow> int ndarray
     \<Rightarrow> error + (int ndarray \<times> 'g)" where
  "shuffle_table seed perm n tab =
     (let (shuffle_idx, g) = perm (length (flat tab)) (seed (int n))
      in ebind (emap (nth_err (flat tab)) shuffle_idx) (\<lambda>fl.
         ebind (reshape fl (int (shape0 tab)) (int (shape1 tab))) (\<lambda>t. Inr (t, g))))"

text \<open>
  One turn of the loop \<open>for n in range(175)\<close> on the current grid, the history
  \<open>table_all\<close> and the generator; \<open>run_beta\<close> is the body of the loop over
  \<open>beta_list\<close> and \<open>sweep\<close> that loop. The literals of the cells (the sizes 70 and 70,
  the strategy count, the 175 generations, the neighbourhood function, shuffling or not)
  are parameters.
\<close>

definition generation ::
  "(int \<Rightarrow> 'g) \<Rightarrow> (nat \<Rightarrow> 'g \<Rightarrow> nat list \<times> 'g) \<Rightarrow> neighbourhood \<Rightarrow> bool \<Rightarrow> f64 ndarray
     \<Rightarrow> nat \<Rightarrow> int ndarray \<times> int ndarray list \<times> 'g
     \<Rightarrow> error + (int ndarray \<times> int ndarray list \<times> 'g)" where
  "generation seed perm neighbourhood_func shuffle payoff n s =
     (case s of (tab, table_all, g) \<Rightarrow>
        ebind (iterate perm tab payoff neighbourhood_func g) (\<lambda>(tab1, g1).
        ebind (if shuffle then shuffle_table seed perm n tab1 else Inr (tab1, g1))
          (\<lambda>(tab2, g2).
        Inr (tab2, table_all @ [tab2], g2))))"

definition run_beta ::
  "(int \<Rightarrow> 'g) \<Rightarrow> (nat \<Rightarrow> 'g \<Rightarrow> nat list \<times> 'g) \<Rightarrow> neighbourhood \<Rightarrow> bool
     \<Rightarrow> int \<Rightarrow> int \<Rightarrow> int \<Rightarrow> int \<Rightarrow> f64 ndarray \<Rightarrow> 'g
     \<Rightarrow> error + (int ndarray list \<times> 'g)" where
  "run_beta seed perm neighbourhood_func shuffle size_x size_y num_strats n_gen payoff g =
     ebind (generate_table seed perm size_x size_y num_strats g) (\<lambda>(tab, g0).
     ebind (efold (generation seed perm neighbourhood_func shuffle payoff)
              [0..<nat n_gen] (tab, [tab], g0)) (\<lambda>(tab', table_all, g1).
     Inr (table_all, g1)))"

definition sweep ::
  "(int \<Rightarrow> 'g) \<Rightarrow> (nat \<Rightarrow> 'g \<Rightarrow> nat list \<times> 'g) \<Rightarrow> neighbourhood \<Rightarrow> bool
     \<Rightarrow> int \<Rightarrow> int \<Rightarrow> int \<Rightarrow> int \<Rightarrow> (real \<Rightarrow> f64 ndarray) \<Rightarrow> real list \<Rightarrow> 'g
     \<Rightarrow> error + (int ndarray list list \<times> 'g)" where
  "sweep seed perm neighbourhood_func shuffle size_x size_y num_strats n_gen payoff_of
       beta_list g =
     efold (\<lambda>beta (table_m, g).
              ebind (run_beta seed perm neighbourhood_func shuffle size_x size_y num_strats
                       n_gen (payoff_of beta) g) (\<lambda>(table_all, g').
              Inr (table_m @ [table_all], g')))
       beta_list ([], g)"

text \<open>
  \<open>np.unique(grid, return_counts=True)\<close>: the sorted distinct labels with their counts.
  The two-strategy cells report \<open>counts[0] / counts.sum()\<close> for \<open>table_m[k][-l]\<close>,
  \<open>l = 1..25\<close>; the three-strategy cells report
  \<open>(table_m[k,l] == s).sum() / (X * Y)\<close> for \<open>l = 1..lastnum\<close>. The division of two
  integers is numpy's true division.
\<close>

definition np_unique_counts :: "int list \<Rightarrow> (int \<times> nat) list" where
  "np_unique_counts xs = map (\<lambda>u. (u, length (filter (\<lambda>v. v = u) xs))) (sort (remdups xs))"

definition true_divide :: "nat \<Rightarrow> nat \<Rightarrow> f64" where
  "true_divide a b = (if b = 0 then (if a = 0 then NaN else PInf) else Fin (real a / real b))"

definition hawk_fraction_unique :: "int ndarray \<Rightarrow> error + f64" where
  "hawk_fraction_unique grid =
     (let counts = map snd (np_unique_counts (flat grid))
      in ebind (nth_err counts 0) (\<lambda>c0. Inr (true_divide c0 (sum_list counts))))"

definition hawk_fractions_last :: "nat \<Rightarrow> int ndarray list \<Rightarrow> error + f64 list" where
  "hawk_fractions_last lastnum table_k =
     emap (\<lambda>l. ebind (py_index (length table_k) (- int l)) (\<lambda>n.
                hawk_fraction_unique (table_k ! n)))
       [1..<lastnum + 1]"

definition strategy_fraction :: "int ndarray \<Rightarrow> int \<Rightarrow> f64" where
  "strategy_fraction grid s = true_divide (count_strategy grid s) (shape0 grid * shape1 grid)"

definition strategy_fractions_from_start ::
  "nat \<Rightarrow> int ndarray list \<Rightarrow> int \<Rightarrow> error + f64 list" where
  "strategy_fractions_from_start lastnum table_k s =
     emap (\<lambda>l. ebind (py_index (length table_k) (int l)) (\<lambda>n.
                Inr (strategy_fraction (table_k ! n) s)))
       [1..<lastnum + 1]"

text \<open>
  Concrete inputs for running the step: a 2 x 3 grid with its fitness field under
  \<open>payoff2 (3 / 2)\<close> and the Von Neumann neighbourhood, and a state of the second pass
  whose fitness values are all equal.
\<close>

definition example_grid :: "int ndarray" where
  "example_grid = \<lparr>shape0 = 2, shape1 = 3, flat = [0, 0, 1, 1, 0, 1]\<rparr>"

definition example_fitness :: "f64 ndarray" where
  "example_fitness =
     \<lparr>shape0 = 2, shape1 = 3, flat = [Fin (11 / 2), Fin (1 / 2), Fin 2, Fin 1, Fin 3, Fin 3]\<rparr>"


section \<open>Neighbourhood resolution\<close>

lemma mod_shift_neq:
  fixes n :: int
  assumes "0 < d" "d < n"
  shows "(a + d) mod n \<noteq> a mod n"
proof
  assume "(a + d) mod n = a mod n"
  then have "n dvd (a + d) - a" by (simp add: mod_eq_dvd_iff)
  then have "n dvd d" by simp
  with assms show False using zdvd_imp_le by fastforce
qed

lemma mod_step_neq:
  fixes n :: int
  assumes "3 \<le> n"
  shows "(x - 1) mod n \<noteq> x mod n" "x mod n \<noteq> (x + 1) mod n" "(x - 1) mod n \<noteq> (x + 1) mod n"
proof -
  show "(x - 1) mod n \<noteq> x mod n"
    using mod_shift_neq [of 1 n "x - 1"] assms by simp
  show "x mod n \<noteq> (x + 1) mod n"
    using mod_shift_neq [of 1 n x] assms by simp
  have "(x - 1 + 2) mod n \<noteq> (x - 1) mod n"
    using mod_shift_neq [of 2 n "x - 1"] assms by simp
  moreover have "x - 1 + 2 = x + 1" by simp
  ultimately show "(x - 1) mod n \<noteq> (x + 1) mod n" by metis
qed

text \<open>
  C5 (as amended). For all integers \<open>x\<close>, \<open>y\<close> and all dimensions \<open>X \<ge> 1\<close>, \<open>Y \<ge> 1\<close>
  the Moore neighbourhood has exactly 8 entries and the Von Neumann neighbourhood exactly
  4, every entry lies in \<open>[0,X) \<times> [0,Y)\<close>, and the entries are pairwise distinct
  when \<open>X \<ge> 3\<close> and \<open>Y \<ge> 3\<close>.
\<close>

theorem neighbourhoods_wrap:
  assumes "1 \<le> X" "1 \<le> Y"
  shows "length (snd (moore_neighbourhood x y X Y)) = 8
       \<and> length (snd (von_neumann_neighbourhood x y X Y)) = 4
       \<and> in_grid X Y (snd (moore_neighbourhood x y X Y))
       \<and> in_grid X Y (snd (von_neumann_neighbourhood x y X Y))
       \<and> (3 \<le> X \<and> 3 \<le> Y \<longrightarrow>
            distinct (snd (moore_neighbourhood x y X Y))
          \<and> distinct (snd (von_neumann_neighbourhood x y X Y)))"
proof -
  have nz: "X \<noteq> 0" "Y \<noteq> 0" "0 < X" "0 < Y" using assms by auto
  have len: "length (snd (moore_neighbourhood x y X Y)) = 8"
    "length (snd (von_neumann_neighbourhood x y X Y)) = 4"
    by (simp_all add: moore_neighbourhood_def von_neumann_neighbourhood_def wrap_def)
  have rng: "in_grid X Y (snd (moore_neighbourhood x y X Y))"
    "in_grid X Y (snd (von_neumann_neighbourhood x y X Y))"
    using nz
    by (simp_all add: moore_neighbourhood_def von_neumann_neighbourhood_def wrap_def
        in_grid_def np_mod_def)
  have dist: "distinct (snd (moore_neighbourhood x y X Y))
      \<and> distinct (snd (von_neumann_neighbourhood x y X Y))" if big: "3 \<le> X" "3 \<le> Y"
  proof -
    note sx = mod_step_neq [OF big(1), of x] and sy = mod_step_neq [OF big(2), of y]
    show ?thesis
      using nz sx sy sx [symmetric] sy [symmetric]
      by (simp add: moore_neighbourhood_def von_neumann_neighbourhood_def wrap_def np_mod_def)
  qed
  from len rng dist show ?thesis by blast
qed

theorem neighbourhoods_wrap_witness:
  "(1::int) \<le> 3 \<and> length (snd (moore_neighbourhood 0 0 3 3)) = 8
   \<and> length (snd (von_neumann_neighbourhood 0 0 3 3)) = 4
   \<and> in_grid 3 3 (snd (moore_neighbourhood 0 0 3 3))
   \<and> in_grid 3 3 (snd (von_neumann_neighbourhood 0 0 3 3))
   \<and> distinct (snd (moore_neighbourhood 0 0 3 3))
   \<and> distinct (snd (von_neumann_neighbourhood 0 0 3 3))
   \<and> snd (moore_neighbourhood 0 0 3 3)
       = [(2, 1), (0, 1), (1, 1), (2, 0), (1, 0), (2, 2), (0, 2), (1, 2)]"
proof -
  have h: "(1::int) \<le> 3" by simp
  have v: "snd (moore_neighbourhood 0 0 3 3)
       = [(2, 1), (0, 1), (1, 1), (2, 0), (1, 0), (2, 2), (0, 2), (1, 2)]"
    by (simp add: moore_neighbourhood_def wrap_def np_mod_def)
  show ?thesis using neighbourhoods_wrap [OF h h, of 0 0] v by simp
qed

text \<open>
  On a grid with a dimension below 3 the wrapped coordinates coincide: the claim of
  pairwise distinct neighbours fails for every \<open>X \<ge> 1\<close>, \<open>Y \<ge> 1\<close>.
\<close>

theorem neighbourhoods_distinct_counterexample:
  "\<not> (\<forall>x y X Y. 1 \<le> X \<and> 1 \<le> Y \<longrightarrow>
        distinct (snd (moore_neighbourhood x y X Y))
      \<and> distinct (snd (von_neumann_neighbourhood x y X Y)))"
proof
  assume a: "\<forall>x y X Y. 1 \<le> X \<and> 1 \<le> Y \<longrightarrow>
        distinct (snd (moore_neighbourhood x y X Y))
      \<and> distinct (snd (von_neumann_neighbourhood x y X Y))"
  have "distinct (snd (von_neumann_neighbourhood 0 0 2 2))"
    using a [rule_format, of 2 2 0 0] by simp
  then show False
    by (simp add: von_neumann_neighbourhood_def wrap_def np_mod_def)
qed

section \<open>Grid initialisation: strategy counts\<close>

lemma efold_append: "efold f (xs @ ys) s = ebind (efold f xs s) (efold f ys)"
  by (induction xs arbitrary: s) (auto simp: ebind_def split: sum.splits)

lemma assign_at_ok:
  "\<forall>k\<in>set idxs. k < length t \<Longrightarrow>
   \<exists>r. assign_at t idxs v = Inr r \<and> length r = length t \<and>
       (\<forall>q<length t. r ! q = (if q \<in> set idxs then v else t ! q))"
  unfolding assign_at_def
proof (induction idxs arbitrary: t)
  case Nil
  then show ?case by simp
next
  case (Cons a idxs)
  have "\<forall>k\<in>set idxs. k < length (t[a := v])" using Cons.prems by simp
  from Cons.IH[OF this] obtain r where r: "efold (\<lambda>k t. if k < length t then Inr (t[k := v]) else Inl IndexError) idxs (t[a := v]) = Inr r"
    "length r = length t" "\<forall>q<length t. r ! q = (if q \<in> set idxs then v else t[a := v] ! q)" by auto
  show ?case using r Cons.prems by (auto simp: ebind_def nth_list_update)
qed

lemma slice_mod: "i < s \<Longrightarrow> i \<le> k \<Longrightarrow> ((k - i) mod s = 0) = (k mod s = (i::nat))"
  by (metis bot_nat_0.not_eq_extremum mod_eq_dvd_iff_nat
    mod_greater_zero_iff_not_dvd mod_if)

lemma set_slice_step:
  "i < s \<Longrightarrow> set (slice_step p i s) = {p ! k | k. k < length p \<and> k mod s = i}"
  unfolding slice_step_def
  apply (auto simp: slice_mod)
  using mod_nat_eqI by blast

lemma cnt_closed: "0 < (S::nat) \<Longrightarrow> s < S \<Longrightarrow>
  length (filter (\<lambda>k. k mod S = s) [0..<n]) = n div S + (if s < n mod S then 1 else 0)"
proof (induction n)
  case 0 then show ?case by simp
next
  case (Suc n)
  then show ?case 
    by (auto simp: mod_Suc div_Suc)
qed

lemma cnt_sum: "0 < (S::nat) \<Longrightarrow> (\<Sum>s<S. length (filter (\<lambda>k. k mod S = s) xs)) = length xs"
proof (induction xs)
  case Nil then show ?case by simp
next
  case (Cons a xs)
  have "(\<Sum>s<S. length (filter (\<lambda>k. k mod S = s) (a # xs))) = (\<Sum>s<S. (if a mod S = s then 1 else 0) + length (filter (\<lambda>k. k mod S = s) xs))"
    by (rule sum.cong) auto
  also have "\<dots> = (\<Sum>s<S. (if a mod S = s then 1 else 0)) + length xs"
    using Cons by (simp add: sum.distrib)
  also have "(\<Sum>s<S. (if a mod S = s then 1 else 0)) = (if a mod S \<in> {..<S} then 1 else (0::nat))"
    by (rule sum.delta') simp
  also have "\<dots> = 1" using Cons.prems by simp
  finally show ?case by simp
qed

lemma strat_loop:
  assumes d: "distinct p" and b: "\<forall>q\<in>set p. q < n" and m: "m \<le> S"
  shows "length t = n \<Longrightarrow> \<exists>r. efold (\<lambda>i t. assign_at t (slice_step p i S) (int i)) [0..<m] t = Inr r
           \<and> length r = n
           \<and> (\<forall>k<length p. r ! (p ! k) = (if k mod S < m then int (k mod S) else t ! (p ! k)))"
  using m
proof (induction m)
  case 0
  then show ?case by simp
next
  case (Suc m)
  then obtain r where r: "efold (\<lambda>i t. assign_at t (slice_step p i S) (int i)) [0..<m] t = Inr r"
     "length r = n" "\<forall>k<length p. r ! (p ! k) = (if k mod S < m then int (k mod S) else t ! (p ! k))"
    by auto
  have mS: "m < S" using Suc.prems by simp
  have sl: "set (slice_step p m S) = {p ! k | k. k < length p \<and> k mod S = m}"
    by (rule set_slice_step [OF mS])
  have "\<forall>k\<in>set (slice_step p m S). k < length r"
    using b r(2) sl by auto
  from assign_at_ok [OF this, of "int m"] obtain r' where r': "assign_at r (slice_step p m S) (int m) = Inr r'"
    "length r' = length r" "\<forall>q<length r. r' ! q = (if q \<in> set (slice_step p m S) then int m else r ! q)"
    by blast
  have "\<forall>k<length p. r' ! (p ! k) = (if k mod S < Suc m then int (k mod S) else t ! (p ! k))"
  proof (intro allI impI)
    fix k assume k: "k < length p"
    then have q: "p ! k < length r" using b r(2) by auto
    have mem: "p ! k \<in> set (slice_step p m S) \<longleftrightarrow> k mod S = m"
      using sl k d by (auto simp: nth_eq_iff_index_eq)
    show "r' ! (p ! k) = (if k mod S < Suc m then int (k mod S) else t ! (p ! k))"
      using r'(3) q mem r(3) k by (auto simp: less_Suc_eq)
  qed
  then show ?case using r r' by (simp add: efold_append ebind_def)
qed


lemma perm_facts:
  assumes "valid_permutation perm"
  shows "distinct (fst (perm n g))" "set (fst (perm n g)) = {0..<n}" "length (fst (perm n g)) = n"
proof -
  have m: "mset (fst (perm n g)) = mset [0..<n]"
    using assms by (simp add: valid_permutation_def)
  show "distinct (fst (perm n g))" using m by (metis distinct_upt mset_eq_imp_distinct_iff)
  show "set (fst (perm n g)) = {0..<n}" using m by (metis mset_eq_setD set_upt)
  show "length (fst (perm n g)) = n" using m by (metis length_upt mset_eq_length minus_nat.diff_0)
qed

lemma mset_via_perm:
  assumes "mset p = mset [0..<length t]"
  shows "mset t = mset (map (\<lambda>k. t ! (p ! k)) [0..<length t])"
proof -
  have lp: "length p = length t" using assms by (metis length_upt mset_eq_length minus_nat.diff_0)
  have "map (\<lambda>k. t ! (p ! k)) [0..<length t] = map (nth t) (map (nth p) [0..<length p])"
    by (simp add: lp)
  also have "\<dots> = map (nth t) p" by (simp add: map_nth)
  finally have "mset (map (\<lambda>k. t ! (p ! k)) [0..<length t]) = image_mset (nth t) (mset p)" by simp
  also have "\<dots> = mset (map (nth t) [0..<length t])" using assms by simp
  also have "\<dots> = mset t" by (simp add: map_nth)
  finally show ?thesis by simp
qed

lemma count_via_mset:
  "mset xs = mset ys \<Longrightarrow> length (filter P xs) = length (filter P ys)"
  by (metis mset_filter size_mset)

lemma fraction_bounds:
  fixes n S s :: nat
  assumes "0 < S" and c: "c = n div S + (if s < n mod S then 1 else 0)"
  shows "\<bar>real c - real n / real S\<bar> \<le> 1"
    and "int c = \<lfloor>real n / real S\<rfloor> \<or> int c = \<lceil>real n / real S\<rceil>"
proof -
  have fl: "\<lfloor>real n / real S\<rfloor> = int (n div S)"
    by (simp add: floor_divide_of_nat_eq)
  have "real n = real S * real (n div S) + real (n mod S)"
    by (metis of_nat_add of_nat_mult mult_div_mod_eq)
  then have dec: "real n / real S = real (n div S) + real (n mod S) / real S"
    using assms(1) by (simp add: field_simps)
  have fr: "0 \<le> real (n mod S) / real S" "real (n mod S) / real S < 1"
    using assms(1) by simp_all
  have lo: "real (n div S) \<le> real n / real S" using dec fr by simp
  have hi: "real n / real S < real (n div S) + 1" using dec fr by simp
  show "\<bar>real c - real n / real S\<bar> \<le> 1"
    using lo hi c by (auto split: if_splits)
  show "int c = \<lfloor>real n / real S\<rfloor> \<or> int c = \<lceil>real n / real S\<rceil>"
  proof (cases "s < n mod S")
    case False
    then show ?thesis using c fl by simp
  next
    case True
    then have "n mod S \<noteq> 0" by simp
    then have "0 < real (n mod S) / real S" using assms(1) by simp
    then have "\<lceil>real n / real S\<rceil> = int (n div S) + 1"
      using dec fr by (intro ceiling_unique) simp_all
    then show ?thesis using c True by simp
  qed
qed

text \<open>
  C6. For every \<open>X \<ge> 1\<close>, \<open>Y \<ge> 1\<close> and strategy count \<open>S \<ge> 1\<close>, and
  every generator whose \<open>permutation\<close> returns permutations, \<open>generate_table\<close> returns
  a grid of shape \<open>(X, Y)\<close> in which the cell at the \<open>k\<close>-th index of the seeded
  permutation holds strategy \<open>k mod S\<close>; the per-strategy counts sum to \<open>X * Y\<close>, each
  count is the floor or the ceiling of \<open>X * Y / S\<close>, and so differs from \<open>X * Y / S\<close>
  by at most 1.
\<close>

theorem generate_table_counts:
  assumes vp: "valid_permutation perm" and X: "1 \<le> X" and Y: "1 \<le> Y" and S: "1 \<le> S"
  shows "\<exists>t g'. generate_table seed perm X Y S g = Inr (t, g')
     \<and> shape0 t = nat X \<and> shape1 t = nat Y \<and> length (flat t) = nat (X * Y)
     \<and> (\<forall>k < nat (X * Y). flat t ! (fst (perm (nat (X * Y)) (seed 0)) ! k) = int (k mod nat S))
     \<and> (\<Sum>s<nat S. count_strategy t (int s)) = nat (X * Y)
     \<and> (\<forall>s<nat S. int (count_strategy t (int s)) = \<lfloor>real (nat (X * Y)) / real (nat S)\<rfloor>
                  \<or> int (count_strategy t (int s)) = \<lceil>real (nat (X * Y)) / real (nat S)\<rceil>)
     \<and> (\<forall>s<nat S. \<bar>real (count_strategy t (int s)) - real (nat (X * Y)) / real (nat S)\<bar> \<le> 1)"
proof -
  define n where "n = nat (X * Y)"
  define p where "p = fst (perm n (seed 0))"
  define g1 where "g1 = snd (perm n (seed 0))"
  define m where "m = nat S"
  have m0: "0 < m" using S by (simp add: m_def)
  have nneg: "\<not> X * Y < 0" using X Y by (simp add: mult_less_0_iff)
  have pf: "distinct p" "set p = {0..<n}" "length p = n"
    using perm_facts [OF vp, of n "seed 0"] by (simp_all add: p_def)
  have "\<forall>q\<in>set p. q < n" using pf by simp
  from strat_loop [OF pf(1) this, of m m "replicate n 0"]
  obtain r where r: "efold (\<lambda>i t. assign_at t (slice_step p i m) (int i)) [0..<m] (replicate n 0) = Inr r"
     "length r = n" "\<forall>k<n. r ! (p ! k) = int (k mod m)"
    using pf(3) m0 by auto
  have nm: "nat X * nat Y = n" using X Y by (simp add: n_def nat_mult_distrib)
  define t where "t = \<lparr>shape0 = nat X, shape1 = nat Y, flat = r\<rparr>"
  have rs: "reshape r X Y = Inr t"
    using X Y nm r(2) by (simp add: reshape_def t_def)
  have gen: "generate_table seed perm X Y S g = Inr (t, g1)"
    using nneg r(1) rs
    by (simp add: generate_table_def Let_def n_def [symmetric] m_def [symmetric]
        case_prod_beta p_def [symmetric] g1_def [symmetric] ebind_def)
  have "mset p = mset [0..<length r]" using vp by (simp add: valid_permutation_def p_def r(2))
  from mset_via_perm [OF this]
  have "mset r = mset (map (\<lambda>k. r ! (p ! k)) [0..<n])" using r(2) by simp
  moreover have "map (\<lambda>k. r ! (p ! k)) [0..<n] = map (\<lambda>k. int (k mod m)) [0..<n]"
    using r(3) by (intro map_cong) auto
  ultimately have ms: "mset r = mset (map (\<lambda>k. int (k mod m)) [0..<n])" by simp
  have cnt: "count_strategy t (int s) = length (filter (\<lambda>k. k mod m = s) [0..<n])" for s
  proof -
    have "count_strategy t (int s) = length (filter (\<lambda>v. v = int s) (map (\<lambda>k. int (k mod m)) [0..<n]))"
      unfolding count_strategy_def t_def using count_via_mset [OF ms] by simp
    also have "\<dots> = length (filter (\<lambda>k. k mod m = s) [0..<n])"
      by (simp add: filter_map comp_def)
    finally show ?thesis .
  qed
  have c1: "(\<Sum>s<m. count_strategy t (int s)) = n"
    using cnt_sum [OF m0, of "[0..<n]"] by (simp add: cnt)
  have c2: "count_strategy t (int s) = n div m + (if s < n mod m then 1 else 0)" if "s < m" for s
    using cnt_closed [OF m0 that, of n] by (simp add: cnt)
  have c3: "\<forall>s<m. int (count_strategy t (int s)) = \<lfloor>real n / real m\<rfloor>
                  \<or> int (count_strategy t (int s)) = \<lceil>real n / real m\<rceil>"
    using fraction_bounds(2) [OF m0 c2] by blast
  have c4: "\<forall>s<m. \<bar>real (count_strategy t (int s)) - real n / real m\<bar> \<le> 1"
    using fraction_bounds(1) [OF m0 c2] by blast
  have "shape0 t = nat X \<and> shape1 t = nat Y \<and> length (flat t) = n" 
    using r(2) by (simp add: t_def)
  moreover have "\<forall>k < n. flat t ! (p ! k) = int (k mod m)" using r(3) by (simp add: t_def)
  ultimately show ?thesis
    using gen c1 c3 c4 unfolding n_def [symmetric] m_def [symmetric] p_def [symmetric] by blast
qed

lemma mset_rotate_eq: "mset (rotate k xs) = mset xs"
proof -
  have "mset (rotate k xs) = mset (drop (k mod length xs) xs) + mset (take (k mod length xs) xs)"
    by (simp add: rotate_drop_take)
  also have "\<dots> = mset (take (k mod length xs) xs @ drop (k mod length xs) xs)"
    by (simp only: mset_append add.commute)
  finally show ?thesis by (simp only: append_take_drop_id)
qed

lemma example_permutation_valid: "valid_permutation example_permutation"
  by (simp add: valid_permutation_def example_permutation_def mset_rotate_eq del: mset_upt)

theorem generate_table_counts_witness:
  "valid_permutation example_permutation \<and> (1::int) \<le> 5 \<and> (1::int) \<le> 1 \<and> (1::int) \<le> 3
   \<and> generate_table example_seed example_permutation 5 1 3 (0::nat)
        = Inr (\<lparr>shape0 = 5, shape1 = 1, flat = [1, 0, 1, 2, 0]\<rparr>, 2)
   \<and> count_strategy \<lparr>shape0 = 5, shape1 = 1, flat = [1, 0, 1, 2, 0]\<rparr> 0 = 2
   \<and> count_strategy \<lparr>shape0 = 5, shape1 = 1, flat = [1, 0, 1, 2, 0]\<rparr> 1 = 2
   \<and> count_strategy \<lparr>shape0 = 5, shape1 = 1, flat = [1, 0, 1, 2, 0]\<rparr> 2 = 1
   \<and> (\<Sum>s<nat 3. count_strategy \<lparr>shape0 = 5, shape1 = 1, flat = [1, 0, 1, 2, 0]\<rparr> (int s)) = nat (5 * 1)"
proof -
  have ev: "generate_table example_seed example_permutation 5 1 3 (0::nat)
      = Inr (\<lparr>shape0 = 5, shape1 = 1, flat = [1, 0, 1, 2, 0]\<rparr>, 2)"
    by code_simp
  have cs: "count_strategy \<lparr>shape0 = 5, shape1 = 1, flat = [1, 0, 1, 2, 0]\<rparr> 0 = 2"
    "count_strategy \<lparr>shape0 = 5, shape1 = 1, flat = [1, 0, 1, 2, 0]\<rparr> 1 = 2"
    "count_strategy \<lparr>shape0 = 5, shape1 = 1, flat = [1, 0, 1, 2, 0]\<rparr> 2 = 1"
    by (simp_all add: count_strategy_def)
  from generate_table_counts [OF example_permutation_valid, of 5 1 3 example_seed 0]
  obtain t g' where t: "generate_table example_seed example_permutation 5 1 3 0 = Inr (t, g')"
    "(\<Sum>s<nat 3. count_strategy t (int s)) = nat (5 * 1)"
    by auto
  from t(1) ev have "t = \<lparr>shape0 = 5, shape1 = 1, flat = [1, 0, 1, 2, 0]\<rparr>" by simp
  with t(2) ev cs example_permutation_valid show ?thesis by simp
qed

section \<open>The generation step\<close>

lemma ebind_Inr [simp]: "ebind (Inr v) f = f v"
  by (simp add: ebind_def)

lemma ebind_Inl [simp]: "ebind (Inl e) f = Inl e"
  by (simp add: ebind_def)

lemma ebind_eq_Inr: "ebind m f = Inr r \<longleftrightarrow> (\<exists>v. m = Inr v \<and> f v = Inr r)"
  by (cases m) auto

lemma ebind_assoc: "ebind (ebind m f) h = ebind m (\<lambda>v. ebind (f v) h)"
  by (cases m) auto

lemma efold_snoc: "efold f (xs @ [x]) s = ebind (efold f xs s) (f x)"
  by (induction xs arbitrary: s) (auto simp: ebind_def split: sum.splits)

lemma efold_map: "efold f (map h xs) s = efold (\<lambda>x. f (h x)) xs s"
  by (induction xs arbitrary: s) (auto simp: ebind_def split: sum.splits)

lemma efold_cong_set: "(\<And>x s. x \<in> set xs \<Longrightarrow> f x s = g x s) \<Longrightarrow> efold f xs s = efold g xs s"
  by (induction xs arbitrary: s) (auto simp: ebind_def split: sum.splits)

lemma emap_snoc:
  "emap f (xs @ [x]) = ebind (emap f xs) (\<lambda>vs. ebind (f x) (\<lambda>v. Inr (vs @ [v])))"
  by (induction xs) (auto simp: ebind_def split: sum.splits)

lemma emap_length: "emap f xs = Inr vs \<Longrightarrow> length vs = length xs"
  by (induction xs arbitrary: vs) (auto simp: ebind_def split: sum.splits)

lemma emap_nth: "emap f xs = Inr vs \<Longrightarrow> n < length xs \<Longrightarrow> f (xs ! n) = Inr (vs ! n)"
  by (induction xs arbitrary: vs n) (auto simp: ebind_def nth_Cons' split: sum.splits)

lemma upt_block: "[a..<a + Y] = map (\<lambda>j. a + j) [0..<Y]"
  by (induction Y) simp_all

lemma nested_efold:
  "efold (\<lambda>i. efold (\<lambda>j. f i j) [0..<Y]) [0..<X] s
     = efold (\<lambda>k. f (k div Y) (k mod Y)) [0..<X * Y] s"
proof (induction X arbitrary: s)
  case 0
  then show ?case by simp
next
  case (Suc X)
  have split: "[0..<Suc X * Y] = [0..<X * Y] @ [X * Y..<X * Y + Y]"
    using upt_add_eq_append [of 0 "X * Y" Y] by (simp add: add.commute)
  have blk: "efold (\<lambda>k. f (k div Y) (k mod Y)) [X * Y..<X * Y + Y] s' = efold (\<lambda>j. f X j) [0..<Y] s'" for s'
    unfolding upt_block efold_map
    by (rule efold_cong_set) auto
  have blk': "efold (\<lambda>k. f (k div Y) (k mod Y)) [X * Y..<X * Y + Y] = efold (f X) [0..<Y]"
    using blk by (intro ext) simp
  have "efold (\<lambda>i. efold (\<lambda>j. f i j) [0..<Y]) [0..<Suc X] s
      = ebind (efold (\<lambda>i. efold (\<lambda>j. f i j) [0..<Y]) [0..<X] s) (efold (f X) [0..<Y])"
    by (simp add: efold_snoc)
  also have "\<dots> = ebind (efold (\<lambda>k. f (k div Y) (k mod Y)) [0..<X * Y] s) (efold (f X) [0..<Y])"
    by (simp only: Suc.IH)
  also have "\<dots> = efold (\<lambda>k. f (k div Y) (k mod Y)) [0..<Suc X * Y] s"
    by (simp only: split efold_append blk')
  finally show ?case .
qed


lemma ebind_cong_Inr: "(\<And>v. m = Inr v \<Longrightarrow> f v = g v) \<Longrightarrow> ebind m f = ebind m g"
  by (cases m) auto

lemma py_index_nat: "i < n \<Longrightarrow> py_index n (int i) = Inr i"
  by (simp add: py_index_def)

lemma offset2_flat:
  assumes "k < shape0 a * shape1 a" "length (flat a) = shape0 a * shape1 a"
  shows "offset2 a (int (k div shape1 a)) (int (k mod shape1 a)) = Inr k"
proof -
  have Y: "0 < shape1 a" using assms(1) by (cases "shape1 a") auto
  have "k div shape1 a < shape0 a"
    using assms(1) Y by (simp add: less_mult_imp_div_less)
  moreover have "k mod shape1 a < shape1 a" using Y by simp
  ultimately show ?thesis
    using assms by (simp add: offset2_def py_index_nat)
qed

lemma offset2_bound: "offset2 a i j = Inr k \<Longrightarrow> k < length (flat a)"
  by (auto simp: offset2_def ebind_eq_Inr split: if_splits)

lemma offset2_update [simp]: "offset2 (a\<lparr>flat := (flat a)[k := v]\<rparr>) i j = offset2 a i j"
  by (simp add: offset2_def cong: if_cong)

lemma fitness_inner:
  assumes "offset2 (table_s st) i j = Inr k"
  shows "efold (\<lambda>nk st.
                  ebind (get2 P cs nk) (\<lambda>p.
                  ebind (get2 (table_s st) i j) (\<lambda>old.
                  ebind (set2 (table_s st) i j (f64_add old p)) (\<lambda>ts.
                  Inr (st\<lparr>table_s := ts\<rparr>))))) ns st
       = ebind (emap (get2 P cs) ns) (\<lambda>ps.
           Inr (st\<lparr>table_s := (table_s st)\<lparr>flat :=
                  (flat (table_s st))[k := foldl f64_add (flat (table_s st) ! k) ps]\<rparr>\<rparr>))"
  using assms
proof (induction ns arbitrary: st)
  case Nil
  then show ?case by simp
next
  case (Cons n ns)
  have kb: "k < length (flat (table_s st))" using Cons.prems by (rule offset2_bound)
  show ?case
  proof (cases "get2 P cs n")
    case (Inl e)
    then show ?thesis by simp
  next
    case (Inr p)
    define st1 where "st1 = st\<lparr>table_s := (table_s st)\<lparr>flat :=
        (flat (table_s st))[k := f64_add (flat (table_s st) ! k) p]\<rparr>\<rparr>"
    have o1: "offset2 (table_s st1) i j = Inr k" using Cons.prems by (simp add: st1_def)
    have step: "ebind (get2 (table_s st) i j) (\<lambda>old.
                  ebind (set2 (table_s st) i j (f64_add old p)) (\<lambda>ts.
                  Inr (st\<lparr>table_s := ts\<rparr>))) = Inr st1"
      using Cons.prems by (simp add: get2_def set2_def st1_def)
    show ?thesis
      using Inr step Cons.IH [OF o1] kb
      by (simp add: st1_def ebind_assoc)
  qed
qed

lemma fitness_cell_eq:
  assumes "offset2 (table_s st) (int i) (int j) = Inr k"
  shows "fitness_cell P nbh i j st
       = ebind (cell_payoffs (table st) P nbh i j) (\<lambda>ps.
           Inr (st\<lparr>table_s := (table_s st)\<lparr>flat :=
                  (flat (table_s st))[k := foldl f64_add (flat (table_s st) ! k) ps]\<rparr>\<rparr>))"
  by (simp add: fitness_cell_def cell_payoffs_def case_prod_beta Let_def
      fitness_inner [OF assms] ebind_assoc)

lemma replicate_fill:
  "length vs = m \<Longrightarrow> m < N \<Longrightarrow>
   (vs @ replicate (N - m) z)[m := v] = (vs @ [v]) @ replicate (N - Suc m) z"
  by (cases "N - m") (auto simp: list_update_append)


lemma fitness_pass:
  fixes T :: "int ndarray" and g :: 'g and TN :: "int ndarray"
  defines "N \<equiv> shape0 T * shape1 T"
  defines "st0 \<equiv> \<lparr>table = T, table_s = np_zeros (shape0 T) (shape1 T) (Fin 0),
                    table_new = TN, rng = g\<rparr>"
  assumes "m \<le> N"
  shows "efold (\<lambda>k. fitness_cell P nbh (k div shape1 T) (k mod shape1 T)) [0..<m] st0
       = ebind (emap (\<lambda>k. cell_fitness T P nbh (k div shape1 T) (k mod shape1 T)) [0..<m])
           (\<lambda>vs. Inr (st0\<lparr>table_s := \<lparr>shape0 = shape0 T, shape1 = shape1 T,
                                        flat = vs @ replicate (N - m) (Fin 0)\<rparr>\<rparr>))"
  using assms(3)
proof (induction m)
  case 0
  then show ?case by (simp add: st0_def np_zeros_def N_def)
next
  case (Suc m)
  let ?h = "\<lambda>k. cell_fitness T P nbh (k div shape1 T) (k mod shape1 T)"
  let ?S = "\<lambda>m vs. st0\<lparr>table_s := \<lparr>shape0 = shape0 T, shape1 = shape1 T,
                                        flat = vs @ replicate (N - m) (Fin 0)\<rparr>\<rparr>"
  have mN: "m < N" using Suc.prems by simp
  have step: "fitness_cell P nbh (m div shape1 T) (m mod shape1 T) (?S m vs)
            = ebind (?h m) (\<lambda>v. Inr (?S (Suc m) (vs @ [v])))"
    if len: "length vs = m" for vs
  proof -
    let ?a = "table_s (?S m vs)"
    have sh: "shape0 ?a = shape0 T" "shape1 ?a = shape1 T"
      "flat ?a = vs @ replicate (N - m) (Fin 0)" by simp_all
    have "offset2 ?a (int (m div shape1 ?a)) (int (m mod shape1 ?a)) = Inr m"
      by (rule offset2_flat) (use mN len in \<open>simp_all add: N_def\<close>)
    then have off: "offset2 ?a (int (m div shape1 T)) (int (m mod shape1 T)) = Inr m"
      by simp
    have z: "flat ?a ! m = Fin 0" using len mN by (simp add: nth_append)
    have tb: "table (?S m vs) = T" by (simp add: st0_def)
    show ?thesis
      unfolding fitness_cell_eq [OF off] tb z cell_fitness_def ebind_assoc
      using replicate_fill [OF len mN, of "Fin 0"]
      by (simp add: st0_def)
  qed
  have "efold (\<lambda>k. fitness_cell P nbh (k div shape1 T) (k mod shape1 T)) [0..<Suc m] st0
      = ebind (emap ?h [0..<m]) (\<lambda>vs.
          fitness_cell P nbh (m div shape1 T) (m mod shape1 T) (?S m vs))"
    using Suc.IH mN by (simp add: efold_snoc ebind_assoc)
  also have "\<dots> = ebind (emap ?h [0..<m]) (\<lambda>vs.
          ebind (?h m) (\<lambda>v. Inr (?S (Suc m) (vs @ [v]))))"
    by (rule ebind_cong_Inr) (use step emap_length in fastforce)
  also have "\<dots> = ebind (emap ?h [0..<Suc m]) (\<lambda>vs. Inr (?S (Suc m) vs))"
    by (simp add: emap_snoc ebind_assoc)
  finally show ?case .
qed

lemma next_values_snoc:
  "next_values perm T F nbh (ks @ [k]) g
     = ebind (next_values perm T F nbh ks g) (\<lambda>(vs, g').
       ebind (next_cell perm T F nbh (k div shape1 T) (k mod shape1 T) g') (\<lambda>(v, g'').
       Inr (vs @ [v], g'')))"
proof (induction ks arbitrary: g)
  case Nil
  then show ?case by (simp add: split_def)
next
  case (Cons a ks)
  show ?case
    by (simp add: Cons.IH ebind_assoc split_def)
qed

lemma next_values_length:
  "next_values perm T F nbh ks g = Inr (vs, g') \<Longrightarrow> length vs = length ks"
  by (induction ks arbitrary: g vs) (auto simp: ebind_eq_Inr)

lemma update_pass:
  fixes T :: "int ndarray" and g :: 'g and F :: "f64 ndarray"
  defines "N \<equiv> shape0 T * shape1 T"
  defines "st1 \<equiv> \<lparr>table = T, table_s = F,
                    table_new = np_zeros (shape0 T) (shape1 T) 0, rng = g\<rparr>"
  assumes "m \<le> N"
  shows "efold (\<lambda>k. update_cell perm nbh (k div shape1 T) (k mod shape1 T)) [0..<m] st1
       = ebind (next_values perm T F nbh [0..<m] g)
           (\<lambda>(vs, g'). Inr (st1\<lparr>table_new := \<lparr>shape0 = shape0 T, shape1 = shape1 T,
                                        flat = vs @ replicate (N - m) 0\<rparr>, rng := g'\<rparr>))"
  using assms(3)
proof (induction m)
  case 0
  then show ?case by (simp add: st1_def np_zeros_def N_def)
next
  case (Suc m)
  let ?S = "\<lambda>m vs g'. st1\<lparr>table_new := \<lparr>shape0 = shape0 T, shape1 = shape1 T,
                                        flat = vs @ replicate (N - m) 0\<rparr>, rng := g'\<rparr>"
  have mN: "m < N" using Suc.prems by simp
  have step: "update_cell perm nbh (m div shape1 T) (m mod shape1 T) (?S m vs g')
            = ebind (next_cell perm T F nbh (m div shape1 T) (m mod shape1 T) g')
                (\<lambda>(v, g''). Inr (?S (Suc m) (vs @ [v]) g''))"
    if len: "length vs = m" for vs g'
  proof -
    let ?a = "table_new (?S m vs g')"
    have "offset2 ?a (int (m div shape1 ?a)) (int (m mod shape1 ?a)) = Inr m"
      by (rule offset2_flat) (use mN len in \<open>simp_all add: N_def\<close>)
    then have off: "offset2 ?a (int (m div shape1 T)) (int (m mod shape1 T)) = Inr m"
      by simp
    show ?thesis
      unfolding update_cell_def set2_def off
      using replicate_fill [OF len mN, of "0::int"]
      by (simp add: st1_def split_def)
  qed
  have "efold (\<lambda>k. update_cell perm nbh (k div shape1 T) (k mod shape1 T)) [0..<Suc m] st1
      = ebind (next_values perm T F nbh [0..<m] g) (\<lambda>(vs, g').
          update_cell perm nbh (m div shape1 T) (m mod shape1 T) (?S m vs g'))"
    using Suc.IH mN by (simp add: efold_snoc ebind_assoc split_def)
  also have "\<dots> = ebind (next_values perm T F nbh [0..<m] g) (\<lambda>(vs, g').
          ebind (next_cell perm T F nbh (m div shape1 T) (m mod shape1 T) g')
                (\<lambda>(v, g''). Inr (?S (Suc m) (vs @ [v]) g'')))"
    by (rule ebind_cong_Inr) (use step next_values_length in fastforce)
  also have "\<dots> = ebind (next_values perm T F nbh [0..<Suc m] g)
           (\<lambda>(vs, g'). Inr (?S (Suc m) vs g'))"
    by (simp add: next_values_snoc ebind_assoc split_def)
  finally show ?case .
qed


lemma efold_invariant:
  assumes "\<And>x s s'. f x s = Inr s' \<Longrightarrow> Q s \<Longrightarrow> Q s'"
  shows "Q s \<Longrightarrow> efold f xs s = Inr s' \<Longrightarrow> Q s'"
proof (induction xs arbitrary: s)
  case Nil
  then show ?case by simp
next
  case (Cons x xs)
  from Cons.prems(2) obtain s1 where s1: "f x s = Inr s1" "efold f xs s1 = Inr s'"
    by (auto simp: ebind_eq_Inr)
  from assms [OF s1(1) Cons.prems(1)] have "Q s1" .
  from Cons.IH [OF this s1(2)] show ?case .
qed

lemma fitness_cell_frame:
  assumes "fitness_cell P nbh i j st = Inr st'"
  shows "table st' = table st \<and> table_new st' = table_new st \<and> rng st' = rng st"
proof -
  let ?Q = "\<lambda>s. table s = table st \<and> table_new s = table_new st \<and> rng s = rng st"
  from assms obtain cs ns where
    run: "efold (\<lambda>nk st.
                  ebind (get2 P cs nk) (\<lambda>p.
                  ebind (get2 (table_s st) (int i) (int j)) (\<lambda>old.
                  ebind (set2 (table_s st) (int i) (int j) (f64_add old p)) (\<lambda>ts.
                  Inr (st\<lparr>table_s := ts\<rparr>))))) ns st = Inr st'"
    by (auto simp: fitness_cell_def Let_def split_def ebind_eq_Inr)
  have "?Q st'"
  proof (rule efold_invariant [where Q = ?Q, OF _ _ run])
    show "?Q st" by simp
  next
    fix x s s'
    assume "ebind (get2 P cs x) (\<lambda>p.
                  ebind (get2 (table_s s) (int i) (int j)) (\<lambda>old.
                  ebind (set2 (table_s s) (int i) (int j) (f64_add old p)) (\<lambda>ts.
                  Inr (s\<lparr>table_s := ts\<rparr>)))) = Inr s'" and "?Q s"
    then show "?Q s'" by (auto simp: ebind_eq_Inr)
  qed
  then show ?thesis .
qed

lemma update_cell_frame:
  assumes "update_cell perm nbh i j st = Inr st'"
  shows "table st' = table st \<and> table_s st' = table_s st"
  using assms by (auto simp: update_cell_def split_def ebind_eq_Inr)

lemma iterate_state_eq:
  "iterate_state perm T P nbh g =
     ebind (fitness_field T P nbh) (\<lambda>F.
     ebind (next_values perm T F nbh [0..<shape0 T * shape1 T] g) (\<lambda>(vs, g').
     Inr \<lparr>table = T, table_s = F,
          table_new = \<lparr>shape0 = shape0 T, shape1 = shape1 T, flat = vs\<rparr>,
          rng = g'\<rparr>))"
  unfolding iterate_state_def Let_def nested_efold
  by (simp add: fitness_pass update_pass fitness_field_def ebind_assoc split_def)

section \<open>Properties of the generation step\<close>

text \<open>
  C1. Snapshot consistency of one generation step. For every grid, payoff matrix and
  neighbourhood function, the two in-place passes of \<open>iterate\<close> compute what the
  specification asks for: first the fitness field of the unmodified argument grid, then
  the values of the next grid from that grid and that field alone; they fail exactly when
  the specification-level functions fail. In the final state the argument grid is the one
  passed in and \<open>table_s\<close> is its fitness field. No cell step of the first pass
  changes \<open>table\<close> or \<open>table_new\<close>, and no cell step of the second pass changes
  \<open>table\<close> or \<open>table_s\<close>; the next grid is the separate array \<open>table_new\<close>.
\<close>

theorem iterate_snapshot:
  "iterate_state perm T P nbh g =
     ebind (fitness_field T P nbh) (\<lambda>F.
     ebind (next_values perm T F nbh [0..<shape0 T * shape1 T] g) (\<lambda>(vs, g').
     Inr \<lparr>table = T, table_s = F,
          table_new = \<lparr>shape0 = shape0 T, shape1 = shape1 T, flat = vs\<rparr>,
          rng = g'\<rparr>))
   \<and> (\<forall>i j st st'. fitness_cell P nbh i j st = Inr st' \<longrightarrow>
          table st' = table st \<and> table_new st' = table_new st \<and> rng st' = rng st)
   \<and> (\<forall>i j st st'. update_cell perm nbh i j st = Inr st' \<longrightarrow>
          table st' = table st \<and> table_s st' = table_s st)"
  using iterate_state_eq [of perm T P nbh g] fitness_cell_frame [of P nbh]
    update_cell_frame [of perm nbh]
  by blast


lemma get2_mem: "get2 a i j = Inr v \<Longrightarrow> v \<in> set (flat a)"
  by (auto simp: get2_def ebind_eq_Inr dest: offset2_bound)

lemma get2_flat:
  assumes "i < shape0 a" "j < shape1 a" "length (flat a) = shape0 a * shape1 a"
  shows "get2 a (int i) (int j) = Inr (flat a ! (i * shape1 a + j))"
proof -
  have "i * shape1 a + j < shape0 a * shape1 a"
  proof -
    have "i * shape1 a + j < i * shape1 a + shape1 a" using assms(2) by simp
    also have "\<dots> = Suc i * shape1 a" by simp
    also have "\<dots> \<le> shape0 a * shape1 a" using assms(1) by (intro mult_le_mono1) simp
    finally show ?thesis .
  qed
  from offset2_flat [OF this assms(3)] show ?thesis
    using assms(2) by (simp add: get2_def)
qed

lemma nth_err_mem: "nth_err xs k = Inr x \<Longrightarrow> x \<in> set xs"
  by (auto simp: nth_err_def split: if_splits)

lemma next_cell_source:
  assumes "next_cell perm T F nbh i j g = Inr (v, g')"
  shows "\<exists>c\<in>set (fst (nbh (int i) (int j) (int (shape0 T)) (int (shape1 T)))
               # snd (nbh (int i) (int j) (int (shape0 T)) (int (shape1 T)))).
           get2 T (fst c) (snd c) = Inr v"
proof -
  let ?all = "fst (nbh (int i) (int j) (int (shape0 T)) (int (shape1 T)))
               # snd (nbh (int i) (int j) (int (shape0 T)) (int (shape1 T)))"
  from assms obtain k c where "nth_err ?all k = Inr c" "get2 T (fst c) (snd c) = Inr v"
    unfolding next_cell_def Let_def split_def ebind_eq_Inr by auto
  then show ?thesis using nth_err_mem by fast
qed

lemma next_values_nth:
  "next_values perm T F nbh ks g = Inr (vs, g') \<Longrightarrow> n < length ks \<Longrightarrow>
   \<exists>g1 g2. next_cell perm T F nbh (ks ! n div shape1 T) (ks ! n mod shape1 T) g1
              = Inr (vs ! n, g2)"
proof (induction ks arbitrary: g vs n)
  case Nil
  then show ?case by simp
next
  case (Cons k ks)
  from Cons.prems(1) obtain v g1 ws where
    a: "next_cell perm T F nbh (k div shape1 T) (k mod shape1 T) g = Inr (v, g1)"
    and b: "next_values perm T F nbh ks g1 = Inr (ws, g')" and c: "vs = v # ws"
    by (auto simp: ebind_eq_Inr split_def)
  show ?case
  proof (cases n)
    case 0
    then show ?thesis using a c by auto
  next
    case (Suc n')
    then have "n' < length ks" using Cons.prems(2) by simp
    from Cons.IH [OF b this] show ?thesis using Suc c by simp
  qed
qed

lemma iterate_state_Inr:
  assumes "iterate_state perm T P nbh g = Inr st"
  shows "\<exists>F vs g'. fitness_field T P nbh = Inr F
      \<and> next_values perm T F nbh [0..<shape0 T * shape1 T] g = Inr (vs, g')
      \<and> st = \<lparr>table = T, table_s = F,
              table_new = \<lparr>shape0 = shape0 T, shape1 = shape1 T, flat = vs\<rparr>,
              rng = g'\<rparr>"
  using assms unfolding iterate_state_eq
  by (auto simp: ebind_eq_Inr split_def)

lemma cell_index:
  assumes "i < X" "j < (Y::nat)"
  shows "i * Y + j < X * Y" "(i * Y + j) div Y = i" "(i * Y + j) mod Y = j"
proof -
  have "i * Y + j < i * Y + Y" using assms(2) by simp
  also have "\<dots> = Suc i * Y" by simp
  also have "\<dots> \<le> X * Y" using assms(1) by (intro mult_le_mono1) simp
  finally show "i * Y + j < X * Y" .
  show "(i * Y + j) div Y = i" using assms(2) by simp
  show "(i * Y + j) mod Y = j" using assms(2) by simp
qed

text \<open>
  C7. When \<open>iterate\<close> returns, the next grid has the shape of the argument grid, and
  the strategy of every cell \<open>(i, j)\<close> is the strategy that the argument grid holds at
  some position of the cell's neighbourhood-plus-self list. Hence every label of the
  next grid occurs in the argument grid, and labels within \<open>[0, S)\<close> stay there.
\<close>

theorem update_copies_neighbourhood_strategy:
  assumes "iterate perm T P nbh g = Inr (new, g')"
  shows "shape0 new = shape0 T \<and> shape1 new = shape1 T
    \<and> (\<forall>i<shape0 T. \<forall>j<shape1 T.
          \<exists>c\<in>set (fst (nbh (int i) (int j) (int (shape0 T)) (int (shape1 T)))
                    # snd (nbh (int i) (int j) (int (shape0 T)) (int (shape1 T)))).
          \<exists>v. get2 T (fst c) (snd c) = Inr v \<and> get2 new (int i) (int j) = Inr v)
    \<and> set (flat new) \<subseteq> set (flat T)
    \<and> (\<forall>S. (\<forall>v\<in>set (flat T). 0 \<le> v \<and> v < S) \<longrightarrow> (\<forall>v\<in>set (flat new). 0 \<le> v \<and> v < S))"
proof -
  let ?X = "shape0 T" and ?Y = "shape1 T"
  from assms obtain st where st: "iterate_state perm T P nbh g = Inr st"
    and new: "new = table_new st"
    by (auto simp: iterate_def ebind_eq_Inr)
  from iterate_state_Inr [OF st] new obtain F vs g1 where
    nv: "next_values perm T F nbh [0..<?X * ?Y] g = Inr (vs, g1)"
    and nw: "new = \<lparr>shape0 = ?X, shape1 = ?Y, flat = vs\<rparr>"
    by auto
  have len: "length vs = ?X * ?Y" using next_values_length [OF nv] by simp
  have src: "\<exists>c\<in>set (fst (nbh (int (k div ?Y)) (int (k mod ?Y)) (int ?X) (int ?Y))
                    # snd (nbh (int (k div ?Y)) (int (k mod ?Y)) (int ?X) (int ?Y))).
             get2 T (fst c) (snd c) = Inr (vs ! k)" if "k < ?X * ?Y" for k
  proof -
    from next_values_nth [OF nv, of k] that obtain g2 g3 where
      "next_cell perm T F nbh (k div ?Y) (k mod ?Y) g2 = Inr (vs ! k, g3)" by auto
    from next_cell_source [OF this] show ?thesis .
  qed
  have cells: "\<forall>i<?X. \<forall>j<?Y.
          \<exists>c\<in>set (fst (nbh (int i) (int j) (int ?X) (int ?Y))
                    # snd (nbh (int i) (int j) (int ?X) (int ?Y))).
          \<exists>v. get2 T (fst c) (snd c) = Inr v \<and> get2 new (int i) (int j) = Inr v"
  proof (intro allI impI)
    fix i j assume ij: "i < ?X" "j < ?Y"
    note ci = cell_index [OF ij]
    have "get2 new (int i) (int j) = Inr (vs ! (i * ?Y + j))"
      using get2_flat [of i new j] ij len by (simp add: nw)
    with src [OF ci(1)] show "\<exists>c\<in>set (fst (nbh (int i) (int j) (int ?X) (int ?Y))
                    # snd (nbh (int i) (int j) (int ?X) (int ?Y))).
          \<exists>v. get2 T (fst c) (snd c) = Inr v \<and> get2 new (int i) (int j) = Inr v"
      unfolding ci(2) ci(3) by blast
  qed
  have sub: "set (flat new) \<subseteq> set (flat T)"
  proof
    fix v assume "v \<in> set (flat new)"
    then obtain k where k: "k < ?X * ?Y" "v = vs ! k"
      using len by (auto simp: nw in_set_conv_nth)
    from src [OF k(1)] obtain c where "get2 T (fst c) (snd c) = Inr (vs ! k)" by blast
    from get2_mem [OF this] k(2) show "v \<in> set (flat T)" by simp
  qed
  from cells sub show ?thesis by (auto simp: nw)
qed


lemma foldl_f64_add_Fin: "foldl f64_add (Fin a) (map Fin rs) = Fin (a + sum_list rs)"
  by (induction rs arbitrary: a) (simp_all add: add.assoc)

lemma fitness_field_nth:
  assumes "fitness_field T P nbh = Inr F" "i < shape0 T" "j < shape1 T"
  shows "shape0 F = shape0 T \<and> shape1 F = shape1 T
       \<and> length (flat F) = shape0 T * shape1 T
       \<and> cell_fitness T P nbh i j = Inr (flat F ! (i * shape1 T + j))"
proof -
  let ?X = "shape0 T" and ?Y = "shape1 T"
  from assms(1) obtain fs where
    fs: "emap (\<lambda>k. cell_fitness T P nbh (k div ?Y) (k mod ?Y)) [0..<?X * ?Y] = Inr fs"
    and F: "F = \<lparr>shape0 = ?X, shape1 = ?Y, flat = fs\<rparr>"
    by (auto simp: fitness_field_def ebind_eq_Inr)
  note ci = cell_index [OF assms(2,3)]
  have "cell_fitness T P nbh ((i * ?Y + j) div ?Y) ((i * ?Y + j) mod ?Y) = Inr (fs ! (i * ?Y + j))"
    using emap_nth [OF fs, of "i * ?Y + j"] ci(1) by simp
  then have "cell_fitness T P nbh i j = Inr (fs ! (i * ?Y + j))"
    unfolding ci(2) ci(3) .
  then show ?thesis using emap_length [OF fs] by (simp add: F)
qed

lemma self_not_neighbour:
  fixes X Y :: int
  assumes "2 \<le> X" "2 \<le> Y" "0 \<le> x" "x < X" "0 \<le> y" "y < Y"
  shows "(x, y) \<notin> set (snd (moore_neighbourhood x y X Y))"
    and "(x, y) \<notin> set (snd (von_neumann_neighbourhood x y X Y))"
proof -
  have x: "x mod X = x" "y mod Y = y" using assms by simp_all
  have "(x + 1) mod X \<noteq> x mod X" "(y + 1) mod Y \<noteq> y mod Y"
    using mod_shift_neq [of 1 X x] mod_shift_neq [of 1 Y y] assms by simp_all
  moreover have "(x - 1) mod X \<noteq> x mod X" "(y - 1) mod Y \<noteq> y mod Y"
    using mod_shift_neq [of 1 X "x - 1"] mod_shift_neq [of 1 Y "y - 1"] assms
    by simp_all
  ultimately have ne: "(x + 1) mod X \<noteq> x" "(y + 1) mod Y \<noteq> y" "(x - 1) mod X \<noteq> x"
    "(y - 1) mod Y \<noteq> y" using x by simp_all
  have nz: "X \<noteq> 0" "Y \<noteq> 0" using assms by auto
  show "(x, y) \<notin> set (snd (moore_neighbourhood x y X Y))"
    using ne nz by (auto simp: moore_neighbourhood_def wrap_def np_mod_def)
  show "(x, y) \<notin> set (snd (von_neumann_neighbourhood x y X Y))"
    using ne nz by (auto simp: von_neumann_neighbourhood_def wrap_def np_mod_def)
qed

text \<open>
  C8 (as amended). When \<open>iterate\<close> returns, the fitness of every cell is the sum, in
  the order of the list, of \<open>payoff_mat[current_strat, neighs_strat[k]]\<close> over exactly the
  entries the neighbourhood function returns (8 for Moore, 4 for Von Neumann), with no
  term for the entry \<open>current\<close>. For Moore and Von Neumann on a grid with \<open>X \<ge> 2\<close>
  and \<open>Y \<ge> 2\<close> the cell's own position is not among these entries.
\<close>

theorem fitness_sums_neighbour_payoffs:
  assumes "iterate_state perm T P nbh g = Inr st" and "i < shape0 T" and "j < shape1 T"
  shows "\<exists>current_strat neighs_strat ps.
      get2 T (fst (fst (nbh (int i) (int j) (int (shape0 T)) (int (shape1 T)))))
             (snd (fst (nbh (int i) (int j) (int (shape0 T)) (int (shape1 T)))))
        = Inr current_strat
    \<and> emap (\<lambda>(a, b). get2 T a b)
         (snd (nbh (int i) (int j) (int (shape0 T)) (int (shape1 T)))) = Inr neighs_strat
    \<and> emap (\<lambda>nk. get2 P current_strat nk) neighs_strat = Inr ps
    \<and> length ps = length (snd (nbh (int i) (int j) (int (shape0 T)) (int (shape1 T))))
    \<and> get2 (table_s st) (int i) (int j) = Inr (foldl f64_add (Fin 0) ps)
    \<and> (\<forall>rs. ps = map Fin rs \<longrightarrow> get2 (table_s st) (int i) (int j) = Inr (Fin (sum_list rs)))
    \<and> (nbh = moore_neighbourhood \<longrightarrow> length ps = 8)
    \<and> (nbh = von_neumann_neighbourhood \<longrightarrow> length ps = 4)
    \<and> ((nbh = moore_neighbourhood \<or> nbh = von_neumann_neighbourhood)
          \<and> 2 \<le> shape0 T \<and> 2 \<le> shape1 T \<longrightarrow>
        (int i, int j) \<notin> set (snd (nbh (int i) (int j) (int (shape0 T)) (int (shape1 T)))))"
proof -
  let ?X = "shape0 T" and ?Y = "shape1 T"
  let ?nb = "nbh (int i) (int j) (int ?X) (int ?Y)"
  from iterate_state_Inr [OF assms(1)] obtain F where
    F: "fitness_field T P nbh = Inr F" and ts: "table_s st = F" by auto
  note fn = fitness_field_nth [OF F assms(2,3)]
  from fn obtain ps where ps: "cell_payoffs T P nbh i j = Inr ps"
    and val: "flat F ! (i * ?Y + j) = foldl f64_add (Fin 0) ps"
    by (auto simp: cell_fitness_def ebind_eq_Inr)
  from ps obtain cs ns where
    cs: "get2 T (fst (fst ?nb)) (snd (fst ?nb)) = Inr cs"
    and ns: "emap (\<lambda>(a, b). get2 T a b) (snd ?nb) = Inr ns"
    and pp: "emap (\<lambda>nk. get2 P cs nk) ns = Inr ps"
    by (auto simp: cell_payoffs_def Let_def split_def ebind_eq_Inr)
  have len: "length ps = length (snd ?nb)"
    using emap_length [OF pp] emap_length [OF ns] by simp
  have rd: "get2 (table_s st) (int i) (int j) = Inr (foldl f64_add (Fin 0) ps)"
    using get2_flat [of i F j] fn assms(2,3) val by (simp add: ts)
  have fin: "\<forall>rs. ps = map Fin rs \<longrightarrow> get2 (table_s st) (int i) (int j) = Inr (Fin (sum_list rs))"
    using rd by (auto simp: foldl_f64_add_Fin)
  have l8: "nbh = moore_neighbourhood \<longrightarrow> length ps = 8"
    using len by (auto simp: moore_neighbourhood_def wrap_def)
  have l4: "nbh = von_neumann_neighbourhood \<longrightarrow> length ps = 4"
    using len by (auto simp: von_neumann_neighbourhood_def wrap_def)
  have self: "(nbh = moore_neighbourhood \<or> nbh = von_neumann_neighbourhood)
          \<and> 2 \<le> ?X \<and> 2 \<le> ?Y \<longrightarrow> (int i, int j) \<notin> set (snd ?nb)"
    using self_not_neighbour [of "int ?X" "int ?Y" "int i" "int j"] assms(2,3) by auto
  from cs ns pp len rd fin l8 l4 self show ?thesis by blast
qed





lemma foldl_f64_max_NaN: "foldl f64_max NaN rest = NaN"
  by (induction rest) (simp_all add: f64_max_def)

lemma foldl_f64_max_has_NaN: "NaN \<in> set rest \<Longrightarrow> foldl f64_max x rest = NaN"
proof (induction rest arbitrary: x)
  case Nil
  then show ?case by simp
next
  case (Cons y rest)
  show ?case
  proof (cases "y = NaN")
    case True
    then have "f64_max x y = NaN" by (simp add: f64_max_def)
    then show ?thesis by (simp add: foldl_f64_max_NaN)
  next
    case False
    then show ?thesis using Cons by simp
  qed
qed

lemma np_max_NaN: "NaN \<in> set xs \<Longrightarrow> np_max xs = Inr NaN"
  by (cases xs) (auto simp: np_max_def foldl_f64_max_NaN foldl_f64_max_has_NaN)

lemma isclose_NaN [simp]: "isclose x NaN = False"
  by (cases x) simp_all


lemma max_idx_NaN: "max_idx xs NaN = []"
  by (simp add: max_idx_def)




lemma choose_max_NaN:
  assumes "valid_permutation perm" "NaN \<in> set xs"
  shows "choose_max perm xs g = Inl IndexError"
proof -
  have "fst (perm 0 g) = []" using perm_facts(3) [OF assms(1), of 0 g] by simp
  then show ?thesis
    by (simp add: choose_max_def np_max_NaN [OF assms(2)] max_idx_NaN split_def nth_err_def Let_def)
qed


lemma emap_total: "(\<And>x. x \<in> set xs \<Longrightarrow> \<exists>v. f x = Inr v) \<Longrightarrow> \<exists>vs. emap f xs = Inr vs"
proof (induction xs)
  case Nil
  then show ?case by simp
next
  case (Cons a xs)
  then obtain v vs where "f a = Inr v" "emap f xs = Inr vs" by (meson list.set_intros)
  then show ?case by simp
qed







section \<open>Initial grid, sweep and configuration\<close>

lemma generate_table_total:
  assumes vp: "valid_permutation perm" and X: "0 \<le> X" and Y: "0 \<le> Y"
  shows "\<exists>t g'. generate_table seed perm X Y S g = Inr (t, g')
           \<and> shape0 t = nat X \<and> shape1 t = nat Y \<and> length (flat t) = nat X * nat Y"
proof -
  define n where "n = nat (X * Y)"
  define p where "p = fst (perm n (seed 0))"
  define g1 where "g1 = snd (perm n (seed 0))"
  have nneg: "\<not> X * Y < 0" using X Y by (simp add: mult_less_0_iff)
  have pf: "distinct p" "set p = {0..<n}" "length p = n"
    using perm_facts [OF vp, of n "seed 0"] by (simp_all add: p_def)
  have "\<forall>q\<in>set p. q < n" using pf by simp
  from strat_loop [OF pf(1) this, of "nat S" "nat S" "replicate n 0"]
  obtain r where r: "efold (\<lambda>i t. assign_at t (slice_step p i (nat S)) (int i)) [0..<nat S]
                       (replicate n 0) = Inr r" "length r = n"
    by auto
  have nm: "nat X * nat Y = n" using X Y by (simp add: n_def nat_mult_distrib)
  have rs: "reshape r X Y = Inr \<lparr>shape0 = nat X, shape1 = nat Y, flat = r\<rparr>"
    using X Y nm r(2) by (simp add: reshape_def)
  have "generate_table seed perm X Y S g = Inr (\<lparr>shape0 = nat X, shape1 = nat Y, flat = r\<rparr>, g1)"
    using nneg r(1) rs
    by (simp add: generate_table_def Let_def n_def [symmetric]
        split_def p_def [symmetric] g1_def [symmetric])
  then show ?thesis using r(2) nm by simp
qed

lemma generate_table_negative:
  assumes vp: "valid_permutation perm" and neg: "X < 0 \<or> Y < 0"
  shows "generate_table seed perm X Y S g = Inl ValueError"
proof (cases "X * Y < 0")
  case True
  then show ?thesis by (simp add: generate_table_def)
next
  case False
  define n where "n = nat (X * Y)"
  define p where "p = fst (perm n (seed 0))"
  have pf: "distinct p" "set p = {0..<n}" "length p = n"
    using perm_facts [OF vp, of n "seed 0"] by (simp_all add: p_def)
  have "\<forall>q\<in>set p. q < n" using pf by simp
  from strat_loop [OF pf(1) this, of "nat S" "nat S" "replicate n 0"]
  obtain r where r: "efold (\<lambda>i t. assign_at t (slice_step p i (nat S)) (int i)) [0..<nat S]
                       (replicate n 0) = Inr r" "length r = n"
    by auto
  have both: "(X < 0 \<and> Y < 0) \<or> (X < 0 \<and> Y = 0) \<or> (Y < 0 \<and> X = 0)"
    using neg False by (auto simp: mult_less_0_iff not_less)
  then have rs: "reshape r X Y = Inl ValueError"
    by (auto simp: reshape_def)
  show ?thesis
    using False r(1) rs
    by (simp add: generate_table_def Let_def n_def [symmetric] split_def p_def [symmetric])
qed

lemma generation_history:
  assumes "generation seed perm nbh sh payoff n (tab, hist, g) = Inr (tab', hist', g')"
  shows "\<exists>t. hist' = hist @ [t]"
  using assms by (auto simp: generation_def ebind_eq_Inr split_def)

lemma run_beta_head:
  assumes "run_beta seed perm nbh sh X Y S G payoff g = Inr (table_all, g1)"
  shows "\<exists>tab g0. generate_table seed perm X Y S g = Inr (tab, g0)
           \<and> table_all \<noteq> [] \<and> hd table_all = tab"
proof -
  from assms obtain tab g0 tab' where gt: "generate_table seed perm X Y S g = Inr (tab, g0)"
    and run: "efold (generation seed perm nbh sh payoff) [0..<nat G] (tab, [tab], g0)
                = Inr (tab', table_all, g1)"
    by (auto simp: run_beta_def ebind_eq_Inr split_def)
  let ?Q = "\<lambda>s. fst (snd s) \<noteq> [] \<and> hd (fst (snd s)) = tab"
  have "?Q (tab', table_all, g1)"
  proof (rule efold_invariant [where Q = ?Q, OF _ _ run])
    show "?Q (tab, [tab], g0)" by simp
  next
    fix x s s'
    assume a: "generation seed perm nbh sh payoff x s = Inr s'" and q: "?Q s"
    obtain t h g where s: "s = (t, h, g)" by (cases s) auto
    obtain t' h' g' where s': "s' = (t', h', g')" by (cases s') auto
    from generation_history [OF a [unfolded s s']] q show "?Q s'"
      by (auto simp: s s')
  qed
  with gt show ?thesis by auto
qed

lemma generate_table_reseed:
  "generate_table seed perm X Y S g = generate_table seed perm X Y S g'"
  by (simp add: generate_table_def)

text \<open>
  C9. \<open>generate_table\<close> takes no seed and reseeds the global generator with the
  constant 0: its result does not depend on the generator's state at the call, and of the
  seeding function only the value at 0 is used. So two calls with the same
  \<open>(X, Y, S)\<close> return the same grid, and in every sweep the run of every \<open>beta\<close>
  starts from that grid.
\<close>

theorem initial_grid_reseeded:
  "generate_table seed perm X Y S g = generate_table seed perm X Y S g'
   \<and> generate_table seed perm X Y S g = generate_table (\<lambda>_. seed 0) perm X Y S g
   \<and> (\<forall>table_m g1.
         sweep seed perm nbh sh X Y S G payoff_of beta_list g = Inr (table_m, g1) \<longrightarrow>
         length table_m = length beta_list \<and>
         (\<forall>table_all\<in>set table_m. table_all \<noteq> [] \<and>
            (\<exists>g0. generate_table seed perm X Y S g' = Inr (hd table_all, g0))))"
proof -
  have a: "generate_table seed perm X Y S g = generate_table seed perm X Y S g'"
    by (rule generate_table_reseed)
  have b: "generate_table seed perm X Y S g = generate_table (\<lambda>_. seed 0) perm X Y S g"
    by (simp add: generate_table_def)
  let ?Q = "\<lambda>bs s. length (fst s) = length bs \<and> (\<forall>table_all\<in>set (fst s). table_all \<noteq> [] \<and>
            (\<exists>g0. generate_table seed perm X Y S g' = Inr (hd table_all, g0)))"
  let ?f = "\<lambda>beta (table_m, g).
              ebind (run_beta seed perm nbh sh X Y S G (payoff_of beta) g) (\<lambda>(table_all, g').
              Inr (table_m @ [table_all], g'))"
  have gen: "efold ?f bs s = Inr s' \<Longrightarrow> ?Q cs s \<Longrightarrow> ?Q (cs @ bs) s'" for bs cs s s'
  proof (induction bs arbitrary: s cs)
    case Nil
    then show ?case by simp
  next
    case (Cons beta bs)
    from Cons.prems(1) obtain s1 where s1: "?f beta s = Inr s1" "efold ?f bs s1 = Inr s'"
      by (auto simp: ebind_eq_Inr)
    obtain tm gg where s: "s = (tm, gg)" by (cases s) auto
    from s1(1) obtain ta g2 where
      rb: "run_beta seed perm nbh sh X Y S G (payoff_of beta) gg = Inr (ta, g2)"
      and s1v: "s1 = (tm @ [ta], g2)"
      by (auto simp: s ebind_eq_Inr split_def)
    from run_beta_head [OF rb] obtain tab g0 where
      "generate_table seed perm X Y S gg = Inr (tab, g0)" "ta \<noteq> []" "hd ta = tab" by blast
    then have "ta \<noteq> [] \<and> (\<exists>g0. generate_table seed perm X Y S g' = Inr (hd ta, g0))"
      using generate_table_reseed [of seed perm X Y S gg g'] by auto
    then have "?Q (cs @ [beta]) s1" using Cons.prems(2) by (auto simp: s s1v)
    from Cons.IH [OF s1(2) this] show ?case by simp
  qed
  have c: "\<forall>table_m g1.
         sweep seed perm nbh sh X Y S G payoff_of beta_list g = Inr (table_m, g1) \<longrightarrow>
         length table_m = length beta_list \<and>
         (\<forall>table_all\<in>set table_m. table_all \<noteq> [] \<and>
            (\<exists>g0. generate_table seed perm X Y S g' = Inr (hd table_all, g0)))"
    using gen [of beta_list "([], g)" _ "[]"] by (auto simp: sweep_def)
  from a b c show ?thesis by blast
qed

text \<open>
  C10 (as amended). The engine validates no configuration. \<open>generate_table\<close> fails,
  with numpy's ValueError, when a dimension is negative; for \<open>X \<ge> 0\<close> and \<open>Y \<ge> 0\<close>,
  zero included, and every integer strategy count it returns a grid of shape \<open>(X, Y)\<close>.
  A sweep over an empty list of \<open>beta\<close> values returns the empty result, and with a
  generation count \<open>G \<le> 0\<close> a run is the initial grid alone.
\<close>

theorem no_configuration_validation:
  assumes "valid_permutation perm"
  shows "(X < 0 \<or> Y < 0 \<longrightarrow> generate_table seed perm X Y S g = Inl ValueError)
     \<and> (0 \<le> X \<and> 0 \<le> Y \<longrightarrow>
          (\<exists>t g'. generate_table seed perm X Y S g = Inr (t, g')
             \<and> shape0 t = nat X \<and> shape1 t = nat Y \<and> length (flat t) = nat X * nat Y))
     \<and> sweep seed perm nbh sh X Y S G payoff_of [] g = Inr ([], g)
     \<and> (G \<le> 0 \<longrightarrow> run_beta seed perm nbh sh X Y S G payoff g
           = ebind (generate_table seed perm X Y S g) (\<lambda>(tab, g0). Inr ([tab], g0)))"
  using generate_table_negative [OF assms, of X Y seed S g]
    generate_table_total [OF assms, of X Y seed S g]
  by (auto simp: sweep_def run_beta_def split_def)

section \<open>The functions on concrete inputs\<close>

text \<open>
  The step on the 2 x 3 grid: the final state, the fitness field and the next values, and one cell step of each pass.
\<close>

theorem iterate_snapshot_witness:
  "iterate_state example_permutation example_grid (payoff2 (3 / 2)) von_neumann_neighbourhood
       (5::nat)
     = Inr \<lparr>table = example_grid, table_s = example_fitness,
            table_new = \<lparr>shape0 = 2, shape1 = 3, flat = [0, 0, 0, 0, 1, 1]\<rparr>, rng = 11\<rparr>
   \<and> fitness_field example_grid (payoff2 (3 / 2)) von_neumann_neighbourhood
       = Inr example_fitness
   \<and> next_values example_permutation example_grid example_fitness von_neumann_neighbourhood
         [0..<6] (5::nat) = Inr ([0, 0, 0, 0, 1, 1], 11)
   \<and> fitness_cell (payoff2 (3 / 2)) von_neumann_neighbourhood 0 0
         \<lparr>table = example_grid, table_s = np_zeros 2 3 (Fin 0), table_new = np_zeros 2 3 0,
          rng = (5::nat)\<rparr>
       = Inr \<lparr>table = example_grid,
              table_s = \<lparr>shape0 = 2, shape1 = 3,
                         flat = [Fin (11 / 2), Fin 0, Fin 0, Fin 0, Fin 0, Fin 0]\<rparr>,
              table_new = np_zeros 2 3 0, rng = 5\<rparr>
   \<and> update_cell example_permutation von_neumann_neighbourhood 1 1
         \<lparr>table = example_grid, table_s = example_fitness, table_new = np_zeros 2 3 0,
          rng = (5::nat)\<rparr>
       = Inr \<lparr>table = example_grid, table_s = example_fitness,
              table_new = \<lparr>shape0 = 2, shape1 = 3, flat = [0, 0, 0, 0, 1, 0]\<rparr>, rng = 6\<rparr>"
proof -
  have f: "fitness_field example_grid (payoff2 (3 / 2)) von_neumann_neighbourhood
       = Inr example_fitness"
    by code_simp
  have n: "next_values example_permutation example_grid example_fitness
         von_neumann_neighbourhood [0..<6] (5::nat) = Inr ([0, 0, 0, 0, 1, 1], 11)"
    by code_simp
  have sh: "shape0 example_grid * shape1 example_grid = 6" by (simp add: example_grid_def)
  have c1: "fitness_cell (payoff2 (3 / 2)) von_neumann_neighbourhood 0 0
         \<lparr>table = example_grid, table_s = np_zeros 2 3 (Fin 0), table_new = np_zeros 2 3 0,
          rng = (5::nat)\<rparr>
       = Inr \<lparr>table = example_grid,
              table_s = \<lparr>shape0 = 2, shape1 = 3,
                         flat = [Fin (11 / 2), Fin 0, Fin 0, Fin 0, Fin 0, Fin 0]\<rparr>,
              table_new = np_zeros 2 3 0, rng = 5\<rparr>"
    by code_simp
  have c2: "update_cell example_permutation von_neumann_neighbourhood 1 1
         \<lparr>table = example_grid, table_s = example_fitness, table_new = np_zeros 2 3 0,
          rng = (5::nat)\<rparr>
       = Inr \<lparr>table = example_grid, table_s = example_fitness,
              table_new = \<lparr>shape0 = 2, shape1 = 3, flat = [0, 0, 0, 0, 1, 0]\<rparr>, rng = 6\<rparr>"
    by code_simp
  have sg: "shape0 example_grid = 2" "shape1 example_grid = 3" by (simp_all add: example_grid_def)
  from iterate_snapshot [of example_permutation example_grid "payoff2 (3 / 2)"
      von_neumann_neighbourhood 5]
  have "iterate_state example_permutation example_grid (payoff2 (3 / 2))
          von_neumann_neighbourhood (5::nat)
     = ebind (fitness_field example_grid (payoff2 (3 / 2)) von_neumann_neighbourhood) (\<lambda>F.
       ebind (next_values example_permutation example_grid F von_neumann_neighbourhood
                [0..<shape0 example_grid * shape1 example_grid] 5) (\<lambda>(vs, g').
       Inr \<lparr>table = example_grid, table_s = F,
            table_new = \<lparr>shape0 = shape0 example_grid, shape1 = shape1 example_grid,
                          flat = vs\<rparr>,
            rng = g'\<rparr>))"
    by blast
  then have "iterate_state example_permutation example_grid (payoff2 (3 / 2))
          von_neumann_neighbourhood (5::nat)
     = Inr \<lparr>table = example_grid, table_s = example_fitness,
            table_new = \<lparr>shape0 = 2, shape1 = 3, flat = [0, 0, 0, 0, 1, 1]\<rparr>, rng = 11\<rparr>"
    by (simp add: f n sh sg)
  with f n c1 c2 show ?thesis by blast
qed

text \<open>
  The next grid of the 2 x 3 grid: cell (1, 1) takes the strategy of its neighbour (1, 2).
\<close>

theorem update_copies_neighbourhood_strategy_witness:
  "iterate example_permutation example_grid (payoff2 (3 / 2)) von_neumann_neighbourhood (5::nat)
     = Inr (\<lparr>shape0 = 2, shape1 = 3, flat = [0, 0, 0, 0, 1, 1]\<rparr>, 11)
   \<and> set (flat \<lparr>shape0 = 2, shape1 = 3, flat = [0, 0, 0, 0, 1, 1::int]\<rparr>)
       \<subseteq> set (flat example_grid)
   \<and> get2 \<lparr>shape0 = 2, shape1 = 3, flat = [0, 0, 0, 0, 1, 1::int]\<rparr> 1 1 = Inr 1
   \<and> get2 example_grid 1 2 = Inr 1
   \<and> (1, 2) \<in> set (fst (von_neumann_neighbourhood 1 1 2 3)
                       # snd (von_neumann_neighbourhood 1 1 2 3))"
proof -
  have ev: "iterate example_permutation example_grid (payoff2 (3 / 2))
      von_neumann_neighbourhood (5::nat)
     = Inr (\<lparr>shape0 = 2, shape1 = 3, flat = [0, 0, 0, 0, 1, 1]\<rparr>, 11)"
    by code_simp
  have r: "get2 \<lparr>shape0 = 2, shape1 = 3, flat = [0, 0, 0, 0, 1, 1::int]\<rparr> 1 1 = Inr 1"
    "get2 example_grid 1 2 = Inr 1"
    "(1, 2) \<in> set (fst (von_neumann_neighbourhood 1 1 2 3)
                       # snd (von_neumann_neighbourhood 1 1 2 3))"
    by code_simp+
  from update_copies_neighbourhood_strategy [OF ev]
  have "set (flat \<lparr>shape0 = 2, shape1 = 3, flat = [0, 0, 0, 0, 1, 1::int]\<rparr>)
       \<subseteq> set (flat example_grid)"
    by blast
  with ev r show ?thesis by blast
qed

text \<open>
  The fitness of cell (0, 0) of the 2 x 3 grid is the sum of its four payoffs.
\<close>

theorem fitness_sums_neighbour_payoffs_witness:
  "iterate_state example_permutation example_grid (payoff2 (3 / 2)) von_neumann_neighbourhood
       (5::nat)
     = Inr \<lparr>table = example_grid, table_s = example_fitness,
            table_new = \<lparr>shape0 = 2, shape1 = 3, flat = [0, 0, 0, 0, 1, 1]\<rparr>, rng = 11\<rparr>
   \<and> (0::nat) < shape0 example_grid \<and> (0::nat) < shape1 example_grid
   \<and> snd (von_neumann_neighbourhood 0 0 2 3) = [(0, 1), (1, 0), (1, 0), (0, 2)]
   \<and> emap (\<lambda>(a, b). get2 example_grid a b) (snd (von_neumann_neighbourhood 0 0 2 3))
       = Inr [0, 1, 1, 1]
   \<and> emap (\<lambda>nk. get2 (payoff2 (3 / 2)) 0 nk) [0, 1, 1, 1]
       = Inr [Fin (- 1 / 2), Fin 2, Fin 2, Fin 2]
   \<and> get2 example_fitness 0 0 = Inr (Fin (11 / 2))
   \<and> (\<exists>ps. length ps = 4 \<and> get2 example_fitness 0 0 = Inr (foldl f64_add (Fin 0) ps))"
proof -
  have ev: "iterate_state example_permutation example_grid (payoff2 (3 / 2))
       von_neumann_neighbourhood (5::nat)
     = Inr \<lparr>table = example_grid, table_s = example_fitness,
            table_new = \<lparr>shape0 = 2, shape1 = 3, flat = [0, 0, 0, 0, 1, 1]\<rparr>, rng = 11\<rparr>"
    by code_simp
  have i: "(0::nat) < shape0 example_grid" and j: "(0::nat) < shape1 example_grid"
    by (simp_all add: example_grid_def)
  have r: "snd (von_neumann_neighbourhood 0 0 2 3) = [(0, 1), (1, 0), (1, 0), (0, 2)]"
    "emap (\<lambda>(a, b). get2 example_grid a b) (snd (von_neumann_neighbourhood 0 0 2 3))
       = Inr [0, 1, 1, 1]"
    "emap (\<lambda>nk. get2 (payoff2 (3 / 2)) 0 nk) [0, 1, 1, 1]
       = Inr [Fin (- 1 / 2), Fin 2, Fin 2, Fin 2]"
    "get2 example_fitness 0 0 = Inr (Fin (11 / 2))"
    by code_simp+
  from fitness_sums_neighbour_payoffs [OF ev i j]
  have "\<exists>ps. length ps = 4 \<and> get2 example_fitness 0 0 = Inr (foldl f64_add (Fin 0) ps)"
    by auto
  with ev i j r show ?thesis by blast
qed

text \<open>
  On the 1 x 1 grid all eight Moore neighbours are the cell itself, and its fitness is eight times its payoff against itself: the own position is part of the sum.
\<close>

theorem self_payoff_counterexample:
  "snd (moore_neighbourhood 0 0 1 1)
     = [(0, 0), (0, 0), (0, 0), (0, 0), (0, 0), (0, 0), (0, 0), (0, 0)]
   \<and> iterate_state example_permutation \<lparr>shape0 = 1, shape1 = 1, flat = [0]\<rparr>
         (payoff2 (3 / 2)) moore_neighbourhood (0::nat)
       = Inr \<lparr>table = \<lparr>shape0 = 1, shape1 = 1, flat = [0]\<rparr>,
              table_s = \<lparr>shape0 = 1, shape1 = 1, flat = [Fin (- 4)]\<rparr>,
              table_new = \<lparr>shape0 = 1, shape1 = 1, flat = [0]\<rparr>, rng = 1\<rparr>
   \<and> get2 (payoff2 (3 / 2)) 0 0 = Inr (Fin (- 1 / 2))"
  by code_simp





text \<open>
  A sweep over two values of beta on a 1 x 2 grid: both runs start from the grid that \<open>generate_table\<close> returns from any generator state.
\<close>

theorem initial_grid_reseeded_witness:
  "sweep example_seed example_permutation von_neumann_neighbourhood False 1 2 2 1 payoff2
       [9 / 10, 2] (7::nat)
     = Inr ([[\<lparr>shape0 = 1, shape1 = 2, flat = [1, 0]\<rparr>,
              \<lparr>shape0 = 1, shape1 = 2, flat = [0, 0]\<rparr>],
             [\<lparr>shape0 = 1, shape1 = 2, flat = [1, 0]\<rparr>,
              \<lparr>shape0 = 1, shape1 = 2, flat = [1, 0]\<rparr>]], 4)
   \<and> generate_table example_seed example_permutation 1 2 2 (7::nat)
       = generate_table example_seed example_permutation 1 2 2 41
   \<and> generate_table example_seed example_permutation 1 2 2 (41::nat)
       = Inr (\<lparr>shape0 = 1, shape1 = 2, flat = [1, 0]\<rparr>, 2)"
proof -
  have ev: "sweep example_seed example_permutation von_neumann_neighbourhood False 1 2 2 1
       payoff2 [9 / 10, 2] (7::nat)
     = Inr ([[\<lparr>shape0 = 1, shape1 = 2, flat = [1, 0]\<rparr>,
              \<lparr>shape0 = 1, shape1 = 2, flat = [0, 0]\<rparr>],
             [\<lparr>shape0 = 1, shape1 = 2, flat = [1, 0]\<rparr>,
              \<lparr>shape0 = 1, shape1 = 2, flat = [1, 0]\<rparr>]], 4)"
    by code_simp
  have gt: "generate_table example_seed example_permutation 1 2 2 (41::nat)
       = Inr (\<lparr>shape0 = 1, shape1 = 2, flat = [1, 0]\<rparr>, 2)"
    by code_simp
  from initial_grid_reseeded [of example_seed example_permutation 1 2 2 7 41
      von_neumann_neighbourhood False 1 payoff2 "[9 / 10, 2]"]
  have "generate_table example_seed example_permutation 1 2 2 (7::nat)
       = generate_table example_seed example_permutation 1 2 2 41"
    by blast
  with ev gt show ?thesis by blast
qed

text \<open>
  A negative dimension raises; zero dimensions, an empty list of beta values and a negative generation count do not.
\<close>

theorem no_configuration_validation_witness:
  "valid_permutation example_permutation
   \<and> generate_table example_seed example_permutation (- 1) 3 2 (0::nat) = Inl ValueError
   \<and> generate_table example_seed example_permutation 0 0 2 (0::nat)
       = Inr (\<lparr>shape0 = 0, shape1 = 0, flat = []\<rparr>, 2)
   \<and> sweep example_seed example_permutation moore_neighbourhood False 2 2 2 1 payoff2 []
        (7::nat) = Inr ([], 7)
   \<and> run_beta example_seed example_permutation von_neumann_neighbourhood True 2 3 3 (- 2)
        (payoff3 0 3) (7::nat)
       = Inr ([\<lparr>shape0 = 2, shape1 = 3, flat = [2, 0, 1, 2, 0, 1]\<rparr>], 2)"
proof -
  note t = no_configuration_validation [OF example_permutation_valid]
  have a: "generate_table example_seed example_permutation (- 1) 3 2 (0::nat) = Inl ValueError"
    using t [of "- 1" 3 example_seed 2 0] by simp
  have b: "generate_table example_seed example_permutation 0 0 2 (0::nat)
       = Inr (\<lparr>shape0 = 0, shape1 = 0, flat = []\<rparr>, 2)"
    by code_simp
  have c: "sweep example_seed example_permutation moore_neighbourhood False 2 2 2 1 payoff2 []
        (7::nat) = Inr ([], 7)"
    using t [of 2 2 example_seed 2 7 moore_neighbourhood False 1 payoff2] by blast
  have g: "generate_table example_seed example_permutation 2 3 3 (7::nat)
       = Inr (\<lparr>shape0 = 2, shape1 = 3, flat = [2, 0, 1, 2, 0, 1]\<rparr>, 2)"
    by code_simp
  have d: "run_beta example_seed example_permutation von_neumann_neighbourhood True 2 3 3 (- 2)
        (payoff3 0 3) (7::nat)
       = Inr ([\<lparr>shape0 = 2, shape1 = 3, flat = [2, 0, 1, 2, 0, 1]\<rparr>], 2)"
    using t [of 2 3 example_seed 3 7 von_neumann_neighbourhood True "- 2" _ "payoff3 0 3"]
    by (simp add: g)
  from example_permutation_valid a b c d show ?thesis by blast
qed

text \<open>
  No configuration error: zero dimensions, five strategies, a 3 x 3 payoff matrix on a two-strategy grid, an empty list of beta values and a negative generation count all return normally.
\<close>

theorem configuration_error_counterexample:
  "generate_table example_seed example_permutation 0 0 2 (0::nat)
     = Inr (\<lparr>shape0 = 0, shape1 = 0, flat = []\<rparr>, 2)
   \<and> generate_table example_seed example_permutation 2 2 5 (0::nat)
       = Inr (\<lparr>shape0 = 2, shape1 = 2, flat = [3, 0, 1, 2]\<rparr>, 2)
   \<and> iterate example_permutation \<lparr>shape0 = 2, shape1 = 2, flat = [0, 1, 1, 0]\<rparr>
        (payoff3 0 2) moore_neighbourhood (0::nat)
       = Inr (\<lparr>shape0 = 2, shape1 = 2, flat = [0, 1, 0, 0]\<rparr>, 4)
   \<and> sweep example_seed example_permutation moore_neighbourhood False 2 2 2 1 payoff2 []
        (7::nat) = Inr ([], 7)
   \<and> sweep example_seed example_permutation von_neumann_neighbourhood True 2 3 3 (- 2)
        (payoff3 0) [3] (7::nat)
       = Inr ([[\<lparr>shape0 = 2, shape1 = 3, flat = [2, 0, 1, 2, 0, 1]\<rparr>]], 2)"
  by code_simp

text \<open>
  C2. The two aggregations on concrete histories. On a grid without Hawk the two-strategy
  aggregation reports \<open>counts[0] / counts.sum() = 1\<close>, the Dove share, where the share
  of cells equal to 0 is 0. The three-strategy aggregation reads the generations
  \<open>1..lastnum\<close> of the history, not its last \<open>lastnum\<close> entries.
\<close>

theorem aggregation_defects:
  "hawk_fraction_unique \<lparr>shape0 = 1, shape1 = 2, flat = [1, 1]\<rparr> = Inr (Fin 1)
   \<and> strategy_fraction \<lparr>shape0 = 1, shape1 = 2, flat = [1, 1]\<rparr> 0 = Fin 0
   \<and> hawk_fractions_last 2
        [\<lparr>shape0 = 1, shape1 = 2, flat = [0, 1]\<rparr>, \<lparr>shape0 = 1, shape1 = 2, flat = [0, 0]\<rparr>,
         \<lparr>shape0 = 1, shape1 = 2, flat = [1, 1]\<rparr>]
       = Inr [Fin 1, Fin 1]
   \<and> strategy_fractions_from_start 2
        [\<lparr>shape0 = 1, shape1 = 2, flat = [0, 1]\<rparr>, \<lparr>shape0 = 1, shape1 = 2, flat = [0, 0]\<rparr>,
         \<lparr>shape0 = 1, shape1 = 2, flat = [1, 1]\<rparr>, \<lparr>shape0 = 1, shape1 = 2, flat = [1, 1]\<rparr>] 0
       = Inr [Fin 1, Fin 0]
   \<and> map (\<lambda>grid. strategy_fraction grid 0)
        (rev (drop 2 [\<lparr>shape0 = 1, shape1 = 2, flat = [0, 1]\<rparr>,
           \<lparr>shape0 = 1, shape1 = 2, flat = [0, 0]\<rparr>,
           \<lparr>shape0 = 1, shape1 = 2, flat = [1, 1]\<rparr>, \<lparr>shape0 = 1, shape1 = 2, flat = [1, 1]\<rparr>]))
       = [Fin 0, Fin 0]"
  by code_simp

end
